theory Spec2Isabelle
  imports Complex_Main "HOL-Library.Multiset" "HOL-Library.Sublist"
begin

section \<open>JavaScript values used by the data sanitizer\<close>

text \<open>
  The sanitizer (\<^verbatim>\<open>dataSanitizer.ts\<close>, the revision that returns
  \<^verbatim>\<open>{ insights, marginData }\<close>) is a chain of pure functions over strings, optional
  fields and numbers.

  \<^item> A JavaScript string is a \<open>string\<close>: the list of the UTF-8 bytes of the text.
    Equality, \<^verbatim>\<open>includes\<close>, \<^verbatim>\<open>split\<close> on an ASCII separator and \<^verbatim>\<open>join\<close> are the same on
    the bytes as on the code units.
  \<^item> An optional field (\<^verbatim>\<open>brand?: string\<close>) is an \<open>option\<close>; \<open>None\<close> is
    \<^verbatim>\<open>undefined\<close>.
  \<^item> A JavaScript number is a \<open>number\<close>: an exact rational, one of the two infinities,
    or NaN. Arithmetic is exact: the rounding of IEEE doubles and the sign of zero are
    not modelled.
  \<^item> The library functions \<^verbatim>\<open>toLowerCase\<close>, \<^verbatim>\<open>toUpperCase\<close>, \<^verbatim>\<open>trim\<close>, \<^verbatim>\<open>toFixed\<close> and
    \<^verbatim>\<open>parseFloat\<close> are parameters of the model, the record \<open>js\<close>: a theorem about
    \<open>js\<close> holds whatever these five functions return, so also for the Unicode case
    mapping, the Unicode white space and the double-precision rendering and parsing of
    the real ones. Their ASCII and decimal versions defined below serve to evaluate the
    scenarios, which are ASCII text with short decimal prices.
\<close>

subsection \<open>Strings\<close>

definition asciiSpace :: "char \<Rightarrow> bool" where
  "asciiSpace c = (c = CHR '' '' \<or> c = CHR 0x09 \<or> c = CHR 0x0A \<or> c = CHR 0x0B
                \<or> c = CHR 0x0C \<or> c = CHR 0x0D)"

definition isDigit :: "char \<Rightarrow> bool" where
  "isDigit c = (c \<in> set ''0123456789'')"

text \<open>Case mapping and trimming of ASCII text.\<close>

definition asciiLowerChar :: "char \<Rightarrow> char" where
  "asciiLowerChar c =
     (case map_of (zip ''ABCDEFGHIJKLMNOPQRSTUVWXYZ'' ''abcdefghijklmnopqrstuvwxyz'') c of
        None \<Rightarrow> c
      | Some l \<Rightarrow> l)"

definition asciiUpperChar :: "char \<Rightarrow> char" where
  "asciiUpperChar c =
     (case map_of (zip ''abcdefghijklmnopqrstuvwxyz'' ''ABCDEFGHIJKLMNOPQRSTUVWXYZ'') c of
        None \<Rightarrow> c
      | Some u \<Rightarrow> u)"

definition asciiLower :: "string \<Rightarrow> string" where
  "asciiLower s = map asciiLowerChar s"

definition asciiUpper :: "string \<Rightarrow> string" where
  "asciiUpper s = map asciiUpperChar s"

definition asciiTrim :: "string \<Rightarrow> string" where
  "asciiTrim s = rev (dropWhile asciiSpace (rev (dropWhile asciiSpace s)))"

text \<open>\<^verbatim>\<open>s.split(c)\<close> for a one-character separator: never empty, \<^verbatim>\<open>"".split(c)\<close> is \<^verbatim>\<open>[""]\<close>.\<close>

fun split :: "char \<Rightarrow> string \<Rightarrow> string list" where
  "split c [] = [[]]"
| "split c (x # xs) =
     (if x = c then [] # split c xs
      else (case split c xs of [] \<Rightarrow> [[x]] | w # ws \<Rightarrow> (x # w) # ws))"

text \<open>\<^verbatim>\<open>s.includes(sub)\<close>.\<close>

fun includes_str :: "string \<Rightarrow> string \<Rightarrow> bool" where
  "includes_str [] sub = (sub = [])"
| "includes_str (c # cs) sub = (prefix sub (c # cs) \<or> includes_str cs sub)"

text \<open>\<^verbatim>\<open>lines.join(sep)\<close>.\<close>

fun join :: "string \<Rightarrow> string list \<Rightarrow> string" where
  "join sep [] = []"
| "join sep [x] = x"
| "join sep (x # y # ys) = x @ sep @ join sep (y # ys)"

text \<open>A string field interpolated into a template literal.\<close>

definition interp :: "string option \<Rightarrow> string" where
  "interp v = (case v of None \<Rightarrow> ''undefined'' | Some s \<Rightarrow> s)"

text \<open>Truthiness of an optional string: defined and not empty.\<close>

definition truthyStr :: "string option \<Rightarrow> bool" where
  "truthyStr v = (case v of None \<Rightarrow> False | Some s \<Rightarrow> s \<noteq> [])"

text \<open>Decimal rendering of a non-negative integer (\<^verbatim>\<open>`${xs.length}`\<close>).\<close>

definition digitChar :: "nat \<Rightarrow> char" where
  "digitChar d = ''0123456789'' ! (d mod 10)"

function showNat :: "nat \<Rightarrow> string" where
  "showNat n = (if n < 10 then [digitChar n] else showNat (n div 10) @ [digitChar n])"
  by pat_completeness auto
termination
  by (relation "measure id") auto

declare showNat.simps [simp del]

subsection \<open>Numbers\<close>

datatype number = Fin rat | PInf | NInf | NaN

fun num_neg :: "number \<Rightarrow> number" where
  "num_neg (Fin a) = Fin (- a)"
| "num_neg PInf = NInf"
| "num_neg NInf = PInf"
| "num_neg NaN = NaN"

fun num_add :: "number \<Rightarrow> number \<Rightarrow> number" where
  "num_add (Fin a) (Fin b) = Fin (a + b)"
| "num_add NaN y = NaN"
| "num_add x NaN = NaN"
| "num_add PInf NInf = NaN"
| "num_add NInf PInf = NaN"
| "num_add PInf y = PInf"
| "num_add x PInf = PInf"
| "num_add NInf y = NInf"
| "num_add x NInf = NInf"

definition num_sub :: "number \<Rightarrow> number \<Rightarrow> number" where
  "num_sub x y = num_add x (num_neg y)"

fun num_mul :: "number \<Rightarrow> number \<Rightarrow> number" where
  "num_mul (Fin a) (Fin b) = Fin (a * b)"
| "num_mul NaN y = NaN"
| "num_mul x NaN = NaN"
| "num_mul (Fin a) y = (if a = 0 then NaN else if 0 < a then y else num_neg y)"
| "num_mul x (Fin b) = (if b = 0 then NaN else if 0 < b then x else num_neg x)"
| "num_mul PInf y = y"
| "num_mul NInf y = num_neg y"

text \<open>Division; a zero divisor is the positive zero.\<close>

fun num_div :: "number \<Rightarrow> number \<Rightarrow> number" where
  "num_div (Fin a) (Fin b) =
     (if b = 0 then (if a = 0 then NaN else if 0 < a then PInf else NInf) else Fin (a / b))"
| "num_div NaN y = NaN"
| "num_div x NaN = NaN"
| "num_div (Fin a) y = Fin 0"
| "num_div x (Fin b) = (if 0 \<le> b then x else num_neg x)"
| "num_div x y = NaN"

text \<open>\<^verbatim>\<open>x > y\<close>: false as soon as one side is NaN.\<close>

fun num_gt :: "number \<Rightarrow> number \<Rightarrow> bool" where
  "num_gt NaN y = False"
| "num_gt x NaN = False"
| "num_gt (Fin a) (Fin b) = (b < a)"
| "num_gt PInf y = (y \<noteq> PInf)"
| "num_gt x NInf = (x \<noteq> NInf)"
| "num_gt x y = False"

text \<open>Truthiness of an optional number: defined, not zero and not NaN.\<close>

definition truthyNum :: "number option \<Rightarrow> bool" where
  "truthyNum v = (case v of None \<Rightarrow> False | Some n \<Rightarrow> n \<noteq> Fin 0 \<and> n \<noteq> NaN)"

text \<open>
  \<^verbatim>\<open>x.toFixed(d)\<close> of an exact decimal value: the sign is taken from \<open>x\<close> before
  rounding, the magnitude is rounded to the nearest multiple of \<open>10^-d\<close> (a tie goes up),
  and the digits are written in full. It agrees with the rendering of the double where
  the value is not within a rounding error of a tie and is below \<open>10^21\<close>.
\<close>

definition fixedDigits :: "nat \<Rightarrow> nat \<Rightarrow> string" where
  "fixedDigits d n =
     (let ds = showNat n;
          padded = replicate (Suc d - length ds) CHR ''0'' @ ds;
          k = length padded - d
      in if d = 0 then padded else take k padded @ ''.'' @ drop k padded)"

definition decimalToFixed :: "number \<Rightarrow> nat \<Rightarrow> string" where
  "decimalToFixed x d =
     (case x of
        NaN \<Rightarrow> ''NaN''
      | PInf \<Rightarrow> ''Infinity''
      | NInf \<Rightarrow> ''-Infinity''
      | Fin q \<Rightarrow>
          (if q < 0 then ''-'' else '''') @
          fixedDigits d (nat \<lfloor>\<bar>q\<bar> * 10 ^ d + 1 / 2\<rfloor>))"

text \<open>
  \<^verbatim>\<open>parseFloat(value)\<close> with an exact result: leading ASCII white space is skipped, then
  the longest prefix that is a decimal literal (sign, digits, fraction, exponent) or
  \<^verbatim>\<open>Infinity\<close> is read; without one, and for \<^verbatim>\<open>undefined\<close>, the result is NaN. It agrees
  with the double on literals that a double holds exactly.
\<close>

definition digitsValue :: "string \<Rightarrow> nat" where
  "digitsValue ds = foldl (\<lambda>acc c. 10 * acc + ((of_char c :: nat) - 48)) 0 ds"

definition exponentPart :: "string \<Rightarrow> int" where
  "exponentPart s =
     (case s of
        [] \<Rightarrow> 0
      | e # rest \<Rightarrow>
          if e = CHR ''e'' \<or> e = CHR ''E'' then
            (case rest of
               [] \<Rightarrow> 0
             | sg # ds \<Rightarrow>
                 if sg = CHR ''-'' then - int (digitsValue (takeWhile isDigit ds))
                 else if sg = CHR ''+'' then int (digitsValue (takeWhile isDigit ds))
                 else int (digitsValue (takeWhile isDigit rest)))
          else 0)"

definition scale10 :: "rat \<Rightarrow> int \<Rightarrow> rat" where
  "scale10 q e = (if 0 \<le> e then q * 10 ^ nat e else q / 10 ^ nat (- e))"

definition decimalParseFloat :: "string option \<Rightarrow> number" where
  "decimalParseFloat value =
     (case value of
        None \<Rightarrow> NaN
      | Some s \<Rightarrow>
          (let s1 = dropWhile asciiSpace s;
               negative = (s1 \<noteq> [] \<and> hd s1 = CHR ''-'');
               s2 = (if s1 \<noteq> [] \<and> (hd s1 = CHR ''-'' \<or> hd s1 = CHR ''+'') then tl s1 else s1);
               ip = takeWhile isDigit s2;
               r1 = dropWhile isDigit s2;
               dotted = (r1 \<noteq> [] \<and> hd r1 = CHR ''.'');
               fp = (if dotted then takeWhile isDigit (tl r1) else []);
               r2 = (if dotted then dropWhile isDigit (tl r1) else r1);
               mant = of_nat (digitsValue (ip @ fp)) / 10 ^ length fp;
               q = scale10 mant (exponentPart r2)
           in if prefix ''Infinity'' s2 then (if negative then NInf else PInf)
              else if ip = [] \<and> fp = [] then NaN
              else Fin (if negative then - q else q)))"


text \<open>An \<^verbatim>\<open>undefined\<close> operand of an arithmetic operator or a comparison is NaN.\<close>

definition numOf :: "number option \<Rightarrow> number" where
  "numOf v = (case v of None \<Rightarrow> NaN | Some n \<Rightarrow> n)"


subsection \<open>The library functions\<close>

record builtins =
  toLowerCase :: "string \<Rightarrow> string"
  toUpperCase :: "string \<Rightarrow> string"
  trim :: "string \<Rightarrow> string"
  toFixed :: "number \<Rightarrow> nat \<Rightarrow> string"
  parseFloat :: "string option \<Rightarrow> number"

text \<open>The library on ASCII text and exact decimal values.\<close>

definition asciiBuiltins :: builtins where
  "asciiBuiltins =
     \<lparr>toLowerCase = asciiLower, toUpperCase = asciiUpper, trim = asciiTrim,
      toFixed = decimalToFixed, parseFloat = decimalParseFloat\<rparr>"

subsection \<open>Arrays\<close>

text \<open>\<^verbatim>\<open>values[index]\<close>: \<^verbatim>\<open>undefined\<close> out of range.\<close>

definition nth_opt :: "'a list \<Rightarrow> nat \<Rightarrow> 'a option" where
  "nth_opt xs i = (if i < length xs then Some (xs ! i) else None)"

text \<open>\<^verbatim>\<open>xs.slice(0, end)\<close>: a negative \<open>end\<close> counts from the end of the array.\<close>

definition slice0 :: "'a list \<Rightarrow> int \<Rightarrow> 'a list" where
  "slice0 xs end =
     (let len = int (length xs);
          k = (if end < 0 then max (len + end) 0 else min end len)
      in take (nat k) xs)"

text \<open>
  \<^verbatim>\<open>xs.sort(cmp)\<close> with a consistent comparator: the stable sort, here by insertion.
  An element goes in front of the first element it does not have to follow.
\<close>

fun insertBy :: "('a \<Rightarrow> 'a \<Rightarrow> int) \<Rightarrow> 'a \<Rightarrow> 'a list \<Rightarrow> 'a list" where
  "insertBy cmp x [] = [x]"
| "insertBy cmp x (y # ys) = (if cmp x y \<le> 0 then x # y # ys else y # insertBy cmp x ys)"

definition sortBy :: "('a \<Rightarrow> 'a \<Rightarrow> int) \<Rightarrow> 'a list \<Rightarrow> 'a list" where
  "sortBy cmp xs = foldr (insertBy cmp) xs []"

text \<open>\<^verbatim>\<open>new Set(xs)\<close> spread back into an array: first occurrences, in order.\<close>

definition setAdd :: "'a list \<Rightarrow> 'a \<Rightarrow> 'a list" where
  "setAdd s x = (if x \<in> set s then s else s @ [x])"

definition newSet :: "'a list \<Rightarrow> 'a list" where
  "newSet xs = foldl setAdd [] xs"

section \<open>The data model\<close>

record HistoricalRecord =
  brand :: "string option"
  model :: "string option"
  variant :: "string option"
  year :: "string option"
  boughtPrice :: "number option"
  soldPrice :: "number option"
  date :: "string option"

record AggregatedData =
  brandModel :: string
  count :: nat
  avgMargin :: number
  years :: "string list"

text \<open>The target car, \<^verbatim>\<open>{ brand: string; model: string }\<close>.\<close>

record TargetCar =
  t_brand :: string
  t_model :: string

record MarginData =
  percentage :: number
  description :: string

record ValuationInsight =
  insights :: string
  marginData :: "MarginData option"

definition emptyRecord :: HistoricalRecord where
  "emptyRecord = \<lparr>brand = None, model = None, variant = None, year = None,
                   boughtPrice = None, soldPrice = None, date = None\<rparr>"

section \<open>parseCSV\<close>

text \<open>The body of \<^verbatim>\<open>headers.forEach((header, index) => ...)\<close> for one header cell.\<close>

definition assignField ::
  "builtins \<Rightarrow> HistoricalRecord \<Rightarrow> string \<times> string option \<Rightarrow> HistoricalRecord" where
  "assignField js r hv =
     (case hv of (header, value) \<Rightarrow>
      let r1 = (if includes_str header ''brand'' then r\<lparr>brand := value\<rparr> else r);
          r2 = (if includes_str header ''model'' then r1\<lparr>model := value\<rparr> else r1);
          r3 = (if includes_str header ''variant'' then r2\<lparr>variant := value\<rparr> else r2);
          r4 = (if includes_str header ''year'' then r3\<lparr>year := value\<rparr> else r3);
          r5 = (if includes_str header ''date'' then r4\<lparr>date := value\<rparr> else r4);
          r6 = (if includes_str header ''bought'' \<or> includes_str header ''purchase''
                then r5\<lparr>boughtPrice := Some (parseFloat js value)\<rparr> else r5);
          r7 = (if includes_str header ''sold'' \<or> includes_str header ''sale''
                then r6\<lparr>soldPrice := Some (parseFloat js value)\<rparr> else r6)
      in r7)"

definition buildRecord :: "builtins \<Rightarrow> string list \<Rightarrow> string list \<Rightarrow> HistoricalRecord" where
  "buildRecord js headers values =
     foldl (assignField js) emptyRecord
       (map (\<lambda>index. (headers ! index, nth_opt values index)) [0..<length headers])"

definition parseCSV :: "builtins \<Rightarrow> string \<Rightarrow> HistoricalRecord list" where
  "parseCSV js csvData =
     (if trim js csvData = [] then []
      else (case split CHR 0x0A (trim js csvData) of
              [] \<Rightarrow> []
            | header # rows \<Rightarrow>
                if length (header # rows) < 2 then []
                else (let headers = map (trim js) (split CHR '','' (toLowerCase js header))
                      in map (\<lambda>line. buildRecord js headers (map (trim js) (split CHR '','' line)))
                           rows)))"

section \<open>calculateRelevance and smartFilter\<close>

definition calculateRelevance :: "builtins \<Rightarrow> HistoricalRecord \<Rightarrow> TargetCar \<Rightarrow> int" where
  "calculateRelevance js r target =
     (let score0 = 0;
          score1 = (if map_option (toLowerCase js) (brand r) = Some (toLowerCase js (t_brand target))
                    then score0 + 50 else score0);
          score2 = (if map_option (toLowerCase js) (model r) = Some (toLowerCase js (t_model target))
                    then score1 + 100 else score1);
          score3 = (if truthyStr (model r) \<and> t_model target \<noteq> [] then
                      (let recordModel = toLowerCase js (interp (model r));
                           targetModel = toLowerCase js (t_model target)
                       in if includes_str recordModel targetModel \<or> includes_str targetModel recordModel
                          then score2 + 75 else score2)
                    else score2)
      in score3)"

definition smartFilter ::
  "builtins \<Rightarrow> HistoricalRecord list \<Rightarrow> TargetCar \<Rightarrow> int \<Rightarrow> HistoricalRecord list" where
  "smartFilter js records target maxRecords =
     (let scored = sortBy (\<lambda>a b. snd b - snd a)
                     (filter (\<lambda>item. snd item > 0)
                        (map (\<lambda>r. (r, calculateRelevance js r target)) records))
      in map fst (slice0 scored maxRecords))"

section \<open>aggregateData\<close>

definition orUnknown :: "string option \<Rightarrow> string" where
  "orUnknown v = (if truthyStr v then interp v else ''Unknown'')"

definition groupKey :: "HistoricalRecord \<Rightarrow> string" where
  "groupKey r = orUnknown (brand r) @ '' '' @ orUnknown (model r)"

text \<open>
  The \<^verbatim>\<open>Map\<close> from key to records keeps its keys in insertion order: an association
  list with distinct keys, a new key appended at the end.
\<close>

definition pushGroup ::
  "(string \<times> HistoricalRecord list) list \<Rightarrow> HistoricalRecord \<Rightarrow> (string \<times> HistoricalRecord list) list" where
  "pushGroup groups r =
     (let key = groupKey r;
          groups1 = (if map_of groups key = None then groups @ [(key, [])] else groups)
      in map (\<lambda>(k, rs). if k = key then (k, rs @ [r]) else (k, rs)) groups1)"

text \<open>\<^verbatim>\<open>((r.soldPrice! - r.boughtPrice!) / r.boughtPrice!) * 100\<close>.\<close>

definition marginOf :: "HistoricalRecord \<Rightarrow> number" where
  "marginOf r =
     num_mul (num_div (num_sub (numOf (soldPrice r)) (numOf (boughtPrice r))) (numOf (boughtPrice r)))
       (Fin 100)"

text \<open>\<^verbatim>\<open>margins.reduce((a, b) => a + b, 0) / margins.length\<close>.\<close>

definition average :: "number list \<Rightarrow> number" where
  "average margins = num_div (foldl num_add (Fin 0) margins) (Fin (of_nat (length margins)))"

definition groupEligible :: "HistoricalRecord \<Rightarrow> bool" where
  "groupEligible r =
     (truthyNum (boughtPrice r) \<and> truthyNum (soldPrice r) \<and> num_gt (numOf (boughtPrice r)) (Fin 0))"

definition aggregateGroup :: "string \<times> HistoricalRecord list \<Rightarrow> AggregatedData list" where
  "aggregateGroup g =
     (case g of (key, groupRecords) \<Rightarrow>
      let margins = map marginOf (filter groupEligible groupRecords);
          ys = newSet (map interp (filter truthyStr (map year groupRecords)))
      in if length margins > 0
         then [\<lparr>brandModel = key, count = length groupRecords,
                avgMargin = average margins, years = ys\<rparr>]
         else [])"

definition aggregateData :: "HistoricalRecord list \<Rightarrow> AggregatedData list" where
  "aggregateData records =
     sortBy (\<lambda>a b. int (count b) - int (count a))
       (concat (map aggregateGroup (foldl pushGroup [] records)))"

section \<open>sanitizeHistoricalData\<close>

definition nl :: string where
  "nl = [CHR 0x0A]"

text \<open>The rupee sign U+20B9, as its UTF-8 bytes.\<close>

definition rupee :: string where
  "rupee = [CHR 0xE2, CHR 0x82, CHR 0xB9]"

definition isExactMatch :: "builtins \<Rightarrow> TargetCar \<Rightarrow> HistoricalRecord \<Rightarrow> bool" where
  "isExactMatch js targetCar r =
     (map_option (toLowerCase js) (brand r) = Some (toLowerCase js (t_brand targetCar)) \<and>
      map_option (toLowerCase js) (model r) = Some (toLowerCase js (t_model targetCar)))"

text \<open>
  The body of \<^verbatim>\<open>recentTxns.forEach(txn => ...)\<close>: the line pushed for one transaction,
  or nothing when a price is falsy.
\<close>

definition txnLine :: "builtins \<Rightarrow> HistoricalRecord \<Rightarrow> string list" where
  "txnLine js txn =
     (if truthyNum (boughtPrice txn) \<and> truthyNum (soldPrice txn) then
        (let margin = num_mul (num_div (num_sub (numOf (soldPrice txn)) (numOf (boughtPrice txn)))
                                 (numOf (boughtPrice txn))) (Fin 100);
             dateStr = (if truthyStr (date txn) then ''Date: '' @ interp (date txn)
                        else ''Date: N/A'');
             modelStr = interp (brand txn) @ '' '' @ interp (model txn);
             variantStr = (if truthyStr (variant txn) then '' '' @ interp (variant txn) else []);
             yearStr = (if truthyStr (year txn) then '' ('' @ interp (year txn) @ '')'' else []);
             buyLakhs = toFixed js (num_div (numOf (boughtPrice txn)) (Fin 100000)) 2;
             sellLakhs = toFixed js (num_div (numOf (soldPrice txn)) (Fin 100000)) 2
         in [''- '' @ dateStr @ '' | '' @ modelStr @ variantStr @ yearStr @
             '' | Bought: '' @ rupee @ buyLakhs @ ''L | Sold: '' @ rupee @ sellLakhs @
             ''L | Margin: '' @ toFixed js margin 1 @ ''%''])
      else [])"

text \<open>The branch \<^verbatim>\<open>exactMatches.length > 0\<close>: the lines pushed and the margin data set.\<close>

definition exactBranch ::
  "builtins \<Rightarrow> TargetCar \<Rightarrow> HistoricalRecord list \<Rightarrow> string list \<times> MarginData option" where
  "exactBranch js targetCar exactMatches =
     (let header = ''*** PRIORITY: YOUR PAST TRANSACTIONS FOR '' @
                   toUpperCase js (t_brand targetCar) @ '' '' @
                   toUpperCase js (t_model targetCar) @ '' ***'';
          recentTxns = slice0 exactMatches 5;
          txnLines = concat (map (txnLine js) recentTxns);
          margins = map marginOf
                      (filter (\<lambda>r. truthyNum (boughtPrice r) \<and> truthyNum (soldPrice r)) exactMatches)
      in if length margins > 0 then
           (let avg = average margins
            in (header # txnLines @
                  [''AVERAGE MARGIN for this model: '' @ toFixed js avg 1 @ ''% over '' @
                   showNat (length margins) @ '' transactions.''],
                Some \<lparr>percentage = avg,
                      description = showNat (length margins) @ '' similar '' @ t_brand targetCar @
                                    '' '' @ t_model targetCar @ '' transactions''\<rparr>))
         else (header # txnLines, None))"

text \<open>The \<^verbatim>\<open>else\<close> branch: the brand-level fallback.\<close>

definition brandBranch ::
  "builtins \<Rightarrow> TargetCar \<Rightarrow> AggregatedData list \<Rightarrow> string list \<times> MarginData option" where
  "brandBranch js targetCar aggregated =
     (let line = ''No exact past transactions for '' @ t_brand targetCar @ '' '' @
                 t_model targetCar @ ''.'';
          brandMatches = filter (\<lambda>a. includes_str (toLowerCase js (brandModel a))
                                         (toLowerCase js (t_brand targetCar))) aggregated
      in if length brandMatches > 0 then
           (let totalBrandTransactions = foldl (\<lambda>sum a. sum + count a) 0 brandMatches;
                totalMargin = foldl (\<lambda>sum a. num_add sum (num_mul (avgMargin a) (Fin (of_nat (count a)))))
                                (Fin 0) brandMatches;
                avgBrandMargin = num_div totalMargin (Fin (of_nat totalBrandTransactions))
            in ([line],
                Some \<lparr>percentage = avgBrandMargin,
                      description = showNat totalBrandTransactions @ '' '' @ t_brand targetCar @
                                    '' transactions (brand average)''\<rparr>))
         else ([line], None))"

definition sanitizeHistoricalData :: "builtins \<Rightarrow> string \<Rightarrow> TargetCar \<Rightarrow> ValuationInsight" where
  "sanitizeHistoricalData js csvData targetCar =
     (if csvData = [] \<or> trim js csvData = [] then
        \<lparr>insights = ''No historical data available.'', marginData = None\<rparr>
      else
        (let allRecords = parseCSV js csvData
         in if length allRecords = 0 then
              \<lparr>insights = ''No valid historical data found.'', marginData = None\<rparr>
            else
              (let relevantRecords = smartFilter js allRecords targetCar 50;
                   aggregated = aggregateData relevantRecords;
                   exactMatches = filter (isExactMatch js targetCar) relevantRecords;
                   pushed = (if length exactMatches > 0 then exactBranch js targetCar exactMatches
                             else brandBranch js targetCar aggregated);
                   context = nl @ ''Database Context: '' @ showNat (length allRecords) @
                             '' total records.''
               in \<lparr>insights = join nl (fst pushed @ [context]), marginData = snd pushed\<rparr>)))"

section \<open>containsSensitiveData\<close>

text \<open>
  The regular expressions of the checker are sequences of items: a character class taken
  once (\<^verbatim>\<open>x\<close>) or at least \<open>n\<close> times (\<^verbatim>\<open>\d+\<close>, \<^verbatim>\<open>\d{5,}\<close>), and \<^verbatim>\<open>.*\<close>.
  \<^verbatim>\<open>pattern.test(text)\<close> looks for a match starting at any position. The classes used are
  ASCII: a digit, and a letter in either case (under the flag \<^verbatim>\<open>i\<close> no character outside
  ASCII matches an ASCII letter).
\<close>

datatype item = Once "char \<Rightarrow> bool" | AtLeast nat "char \<Rightarrow> bool" | AnyStar

type_synonym regex = "item list"

text \<open>
  \<^verbatim>\<open>.\<close> matches every character but the line terminators: line feed, carriage return,
  U+2028 and U+2029, the last two being three bytes each in UTF-8.
\<close>

definition lineTerminatorAt :: "string \<Rightarrow> bool" where
  "lineTerminatorAt s =
     (prefix [CHR 0x0A] s \<or> prefix [CHR 0x0D] s \<or>
      prefix [CHR 0xE2, CHR 0x80, CHR 0xA8] s \<or> prefix [CHR 0xE2, CHR 0x80, CHR 0xA9] s)"

text \<open>
  \<^verbatim>\<open>.*\<close> advances byte by byte and never over the first byte of a line terminator; what
  follows it in these patterns is a digit, which no byte inside a character is.
\<close>

fun matchHere :: "regex \<Rightarrow> string \<Rightarrow> bool" where
  "matchHere [] s = True"
| "matchHere (Once p # r) [] = False"
| "matchHere (Once p # r) (c # cs) = (p c \<and> matchHere r cs)"
| "matchHere (AtLeast n p # r) [] = (n = 0 \<and> matchHere r [])"
| "matchHere (AtLeast n p # r) (c # cs) =
     ((n = 0 \<and> matchHere r (c # cs)) \<or> (p c \<and> matchHere (AtLeast (n - 1) p # r) cs))"
| "matchHere (AnyStar # r) [] = matchHere r []"
| "matchHere (AnyStar # r) (c # cs) =
     (matchHere r (c # cs) \<or> (\<not> lineTerminatorAt (c # cs) \<and> matchHere (AnyStar # r) cs))"

fun regexTest :: "regex \<Rightarrow> string \<Rightarrow> bool" where
  "regexTest r [] = matchHere r []"
| "regexTest r (c # cs) = (matchHere r (c # cs) \<or> regexTest r cs)"

text \<open>A literal word under the flag \<^verbatim>\<open>i\<close>.\<close>

definition literal_i :: "string \<Rightarrow> regex" where
  "literal_i w = map (\<lambda>x. Once (\<lambda>c. asciiLowerChar c = asciiLowerChar x)) w"

definition sensitivePatterns :: "regex list" where
  "sensitivePatterns =
     [[AtLeast 5 isDigit],
      literal_i ''bought'' @ [AnyStar, AtLeast 1 isDigit],
      literal_i ''sold'' @ [AnyStar, AtLeast 1 isDigit],
      literal_i ''price'' @ [AnyStar, AtLeast 1 isDigit],
      literal_i ''margin'' @ [AnyStar, AtLeast 1 isDigit]]"

definition containsSensitiveData :: "string \<Rightarrow> bool" where
  "containsSensitiveData t = list_ex (\<lambda>pattern. regexTest pattern t) sensitivePatterns"

section \<open>Definitions used to state the claims\<close>

subsection \<open>The relevance score\<close>

text \<open>The three conditions tested by \<^verbatim>\<open>calculateRelevance\<close>, by name.\<close>

definition exactBrand :: "builtins \<Rightarrow> HistoricalRecord \<Rightarrow> TargetCar \<Rightarrow> bool" where
  "exactBrand js r target =
     (map_option (toLowerCase js) (brand r) = Some (toLowerCase js (t_brand target)))"

definition exactModel :: "builtins \<Rightarrow> HistoricalRecord \<Rightarrow> TargetCar \<Rightarrow> bool" where
  "exactModel js r target =
     (map_option (toLowerCase js) (model r) = Some (toLowerCase js (t_model target)))"

definition partialModel :: "builtins \<Rightarrow> HistoricalRecord \<Rightarrow> TargetCar \<Rightarrow> bool" where
  "partialModel js r target =
     (truthyStr (model r) \<and> t_model target \<noteq> [] \<and>
      (includes_str (toLowerCase js (interp (model r))) (toLowerCase js (t_model target)) \<or>
       includes_str (toLowerCase js (t_model target)) (toLowerCase js (interp (model r)))))"

text \<open>
  The scoring rule in the words of the specification: the substring bonus is given only
  when the models are not equal.
\<close>

definition spec_relevance :: "builtins \<Rightarrow> HistoricalRecord \<Rightarrow> TargetCar \<Rightarrow> int" where
  "spec_relevance js r target =
     (if exactBrand js r target then 50 else 0) +
     (if exactModel js r target then 100
      else if partialModel js r target then 75 else 0)"

subsection \<open>The sensitivity rule\<close>

text \<open>
  In the words of the specification: a run of five digits starts somewhere, or one of the
  four words occurs (in any case) and a digit occurs anywhere after it.
\<close>

definition spec_keywordThenDigit :: "string \<Rightarrow> string \<Rightarrow> bool" where
  "spec_keywordThenDigit kw t =
     list_ex (\<lambda>s. prefix kw (asciiLower s) \<and> list_ex isDigit (drop (length kw) s)) (suffixes t)"

definition spec_containsSensitiveData :: "string \<Rightarrow> bool" where
  "spec_containsSensitiveData t =
     (list_ex (\<lambda>s. 5 \<le> length (takeWhile isDigit s)) (suffixes t) \<or>
      list_ex (\<lambda>kw. spec_keywordThenDigit kw t) [''bought'', ''sold'', ''price'', ''margin''])"

text \<open>A text holds a line terminator: LF, CR, or the UTF-8 bytes of U+2028 or U+2029.\<close>

definition hasLineTerminator :: "string \<Rightarrow> bool" where
  "hasLineTerminator s =
     (CHR 0x0A \<in> set s \<or> CHR 0x0D \<in> set s \<or>
      includes_str s [CHR 0xE2, CHR 0x80, CHR 0xA8] \<or>
      includes_str s [CHR 0xE2, CHR 0x80, CHR 0xA9])"

subsection \<open>What the parser needs of \<^verbatim>\<open>trim\<close>\<close>

text \<open>
  \<^verbatim>\<open>trim\<close> returns a contiguous part of its argument that neither starts nor ends with a
  line feed. The real one does: it cuts white space, line feeds included, from both ends.
\<close>

definition trimsEnds :: "(string \<Rightarrow> string) \<Rightarrow> bool" where
  "trimsEnds f =
     (\<forall>s. (\<exists>pre post. s = pre @ f s @ post) \<and>
          (f s \<noteq> [] \<longrightarrow> hd (f s) \<noteq> CHR 0x0A \<and> last (f s) \<noteq> CHR 0x0A))"

subsection \<open>Margin eligibility in the words of the specification\<close>

text \<open>
  A price is present when the field is defined and is not the NaN of a failed parse; a
  record counts for the margin when both prices are present and the bought price is
  positive.
\<close>

definition spec_present :: "number option \<Rightarrow> bool" where
  "spec_present v = (case v of None \<Rightarrow> False | Some n \<Rightarrow> n \<noteq> NaN)"

definition spec_groupEligible :: "HistoricalRecord \<Rightarrow> bool" where
  "spec_groupEligible r =
     (spec_present (boughtPrice r) \<and> spec_present (soldPrice r) \<and>
      num_gt (numOf (boughtPrice r)) (Fin 0))"

subsection \<open>A falsy price made absent\<close>


subsection \<open>The vocabulary of the report\<close>

text \<open>A record is priced when both its prices are truthy: defined, not 0, not NaN.\<close>

definition priced :: "HistoricalRecord \<Rightarrow> bool" where
  "priced r = (truthyNum (boughtPrice r) \<and> truthyNum (soldPrice r))"

text \<open>
  The line of one transaction: the date or N/A, brand, model, variant and year, the two
  prices divided by 100000 and rendered by \<^verbatim>\<open>toFixed(2)\<close>, the margin
  \<open>(sold - bought) / bought * 100\<close> rendered by \<^verbatim>\<open>toFixed(1)\<close>.
\<close>

definition txnText :: "builtins \<Rightarrow> HistoricalRecord \<Rightarrow> string" where
  "txnText js r =
     ''- '' @ (if truthyStr (date r) then ''Date: '' @ interp (date r) else ''Date: N/A'') @
     '' | '' @ interp (brand r) @ '' '' @ interp (model r) @
     (if truthyStr (variant r) then '' '' @ interp (variant r) else []) @
     (if truthyStr (year r) then '' ('' @ interp (year r) @ '')'' else []) @
     '' | Bought: '' @ rupee @ toFixed js (num_div (numOf (boughtPrice r)) (Fin 100000)) 2 @
     ''L | Sold: '' @ rupee @ toFixed js (num_div (numOf (soldPrice r)) (Fin 100000)) 2 @
     ''L | Margin: '' @
     toFixed js (num_mul (num_div (num_sub (numOf (soldPrice r)) (numOf (boughtPrice r)))
                            (numOf (boughtPrice r))) (Fin 100)) 1 @
     ''%''"

text \<open>The records of the ledger selected for the target, and the exact matches among them.\<close>

definition selectedRecords :: "builtins \<Rightarrow> string \<Rightarrow> TargetCar \<Rightarrow> HistoricalRecord list" where
  "selectedRecords js csvData targetCar = smartFilter js (parseCSV js csvData) targetCar 50"

definition exactMatchesOf :: "builtins \<Rightarrow> string \<Rightarrow> TargetCar \<Rightarrow> HistoricalRecord list" where
  "exactMatchesOf js csvData targetCar =
     filter (\<lambda>r. map_option (toLowerCase js) (brand r) = Some (toLowerCase js (t_brand targetCar)) \<and>
                 map_option (toLowerCase js) (model r) = Some (toLowerCase js (t_model targetCar)))
       (selectedRecords js csvData targetCar)"

text \<open>
  The sentence with which the earlier revision of the composer states that the brand has
  no transaction.
\<close>

definition spec_noBrandSentence :: "TargetCar \<Rightarrow> string" where
  "spec_noBrandSentence targetCar = ''No '' @ t_brand targetCar @ '' transactions found.''"

subsection \<open>The ledgers and the targets of the scenarios\<close>

definition scenarioLedger :: string where
  "scenarioLedger =
     ''Brand,Model,Year,BoughtPrice,SoldPrice'' @ [CHR 0x0A] @
     ''Maruti,Swift,2018,450000,520000'' @ [CHR 0x0A] @
     ''Maruti,Swift,2019,400000,460000''"

definition marutiSwift :: TargetCar where
  "marutiSwift = \<lparr>t_brand = ''Maruti'', t_model = ''Swift''\<rparr>"

definition hondaCity :: TargetCar where
  "hondaCity = \<lparr>t_brand = ''Honda'', t_model = ''City''\<rparr>"

definition marutiAlto :: TargetCar where
  "marutiAlto = \<lparr>t_brand = ''Maruti'', t_model = ''Alto''\<rparr>"

definition swift2018 :: HistoricalRecord where
  "swift2018 = \<lparr>brand = Some ''Maruti'', model = Some ''Swift'', variant = None,
                 year = Some ''2018'', boughtPrice = Some (Fin 450000),
                 soldPrice = Some (Fin 520000), date = None\<rparr>"

definition swift2019 :: HistoricalRecord where
  "swift2019 = \<lparr>brand = Some ''Maruti'', model = Some ''Swift'', variant = None,
                 year = Some ''2019'', boughtPrice = Some (Fin 400000),
                 soldPrice = Some (Fin 460000), date = None\<rparr>"


definition swiftUnsold :: HistoricalRecord where
  "swiftUnsold = \<lparr>brand = Some ''Maruti'', model = Some ''Swift'', variant = None,
                   year = Some ''2018'', boughtPrice = Some (Fin 450000),
                   soldPrice = Some (Fin 0), date = None\<rparr>"

section \<open>Claim C1: the relevance score\<close>

lemma includes_str_refl: "includes_str s s"
  by (cases s) simp_all

lemma calculateRelevance_sum:
  "calculateRelevance js r target =
     (if exactBrand js r target then 50 else 0) + (if exactModel js r target then 100 else 0) +
     (if partialModel js r target then 75 else 0)"
  by (simp add: calculateRelevance_def exactBrand_def exactModel_def partialModel_def Let_def)

lemma exactModel_partialModel:
  assumes "exactModel js r target" and "truthyStr (model r)" and "t_model target \<noteq> []"
  shows "partialModel js r target"
proof -
  from assms(1) obtain m where m: "model r = Some m"
    "toLowerCase js m = toLowerCase js (t_model target)"
    by (auto simp: exactModel_def)
  with assms(2,3) show ?thesis
    by (simp add: partialModel_def interp_def includes_str_refl)
qed

lemma ascii_lower_words:
  "asciiLower ''Maruti'' = ''maruti''" "asciiLower ''maruti'' = ''maruti''"
  "asciiLower ''Swift'' = ''swift''" "asciiLower ''SWIFT'' = ''swift''"
  "asciiLower ''Swift Dzire'' = ''swift dzire''" "asciiLower ''Honda'' = ''honda''"
  "asciiLower ''Alto'' = ''alto''" "asciiLower ''City'' = ''city''"
  by (simp_all add: asciiLower_def asciiLowerChar_def)

text \<open>
  Claim C1, as the code has it, whatever \<^verbatim>\<open>toLowerCase\<close> returns. The score is the sum of
  three independent bonuses: 50 for an equal brand, 100 for an equal model, and 75
  whenever both models are non-empty and one contains the other, equal models included.
  So with non-empty models an equal brand and an equal model score 225, an equal brand
  with a model that is only a substring scores 125, an equal model alone scores 175, and
  every score is one of 0, 50, 75, 100, 125, 150, 175, 225.
\<close>

theorem calculateRelevance_additive:
  "calculateRelevance js r target =
     (if exactBrand js r target then 50 else 0) + (if exactModel js r target then 100 else 0) +
     (if partialModel js r target then 75 else 0)
   \<and> (exactModel js r target \<and> truthyStr (model r) \<and> t_model target \<noteq> []
        \<longrightarrow> partialModel js r target)
   \<and> (exactBrand js r target \<and> exactModel js r target \<and> truthyStr (model r) \<and>
        t_model target \<noteq> []
        \<longrightarrow> calculateRelevance js r target = 225)
   \<and> (exactBrand js r target \<and> \<not> exactModel js r target \<and> partialModel js r target
        \<longrightarrow> calculateRelevance js r target = 125)
   \<and> (\<not> exactBrand js r target \<and> exactModel js r target \<and> truthyStr (model r) \<and>
        t_model target \<noteq> []
        \<longrightarrow> calculateRelevance js r target = 175)
   \<and> calculateRelevance js r target \<in> {0, 50, 75, 100, 125, 150, 175, 225}"
  using exactModel_partialModel [of js r target]
  by (auto simp: calculateRelevance_sum)

theorem calculateRelevance_additive_witness:
  "calculateRelevance asciiBuiltins
     \<lparr>brand = Some ''Maruti'', model = Some ''Swift'', variant = None, year = None,
      boughtPrice = None, soldPrice = None, date = None\<rparr>
     \<lparr>t_brand = ''maruti'', t_model = ''SWIFT''\<rparr> = 225
   \<and> calculateRelevance asciiBuiltins
     \<lparr>brand = Some ''Maruti'', model = Some ''Swift Dzire'', variant = None, year = None,
      boughtPrice = None, soldPrice = None, date = None\<rparr>
     \<lparr>t_brand = ''Maruti'', t_model = ''Swift''\<rparr> = 125
   \<and> calculateRelevance asciiBuiltins
     \<lparr>brand = Some ''Honda'', model = Some ''Swift'', variant = None, year = None,
      boughtPrice = None, soldPrice = None, date = None\<rparr>
     \<lparr>t_brand = ''Maruti'', t_model = ''Swift''\<rparr> = 175"
proof -
  let ?r1 = "\<lparr>brand = Some ''Maruti'', model = Some ''Swift'', variant = None, year = None,
              boughtPrice = None, soldPrice = None, date = None\<rparr>"
  let ?t1 = "\<lparr>t_brand = ''maruti'', t_model = ''SWIFT''\<rparr>"
  let ?r2 = "\<lparr>brand = Some ''Maruti'', model = Some ''Swift Dzire'', variant = None, year = None,
              boughtPrice = None, soldPrice = None, date = None\<rparr>"
  let ?r3 = "\<lparr>brand = Some ''Honda'', model = Some ''Swift'', variant = None, year = None,
              boughtPrice = None, soldPrice = None, date = None\<rparr>"
  let ?t = "\<lparr>t_brand = ''Maruti'', t_model = ''Swift''\<rparr>"
  have h1: "exactBrand asciiBuiltins ?r1 ?t1 \<and> exactModel asciiBuiltins ?r1 ?t1 \<and>
            truthyStr (model ?r1) \<and> t_model ?t1 \<noteq> []"
    by (simp add: exactBrand_def exactModel_def asciiBuiltins_def ascii_lower_words truthyStr_def)
  have h2: "exactBrand asciiBuiltins ?r2 ?t \<and> \<not> exactModel asciiBuiltins ?r2 ?t \<and>
            partialModel asciiBuiltins ?r2 ?t"
    by (simp add: exactBrand_def exactModel_def partialModel_def asciiBuiltins_def
        ascii_lower_words truthyStr_def interp_def)
  have h3: "\<not> exactBrand asciiBuiltins ?r3 ?t \<and> exactModel asciiBuiltins ?r3 ?t \<and>
            truthyStr (model ?r3) \<and> t_model ?t \<noteq> []"
    by (simp add: exactBrand_def exactModel_def asciiBuiltins_def ascii_lower_words truthyStr_def)
  have c1: "calculateRelevance asciiBuiltins ?r1 ?t1 = 225"
    using calculateRelevance_additive [of asciiBuiltins ?r1 ?t1] h1 by blast
  have c2: "calculateRelevance asciiBuiltins ?r2 ?t = 125"
    using calculateRelevance_additive [of asciiBuiltins ?r2 ?t] h2 by blast
  have c3: "calculateRelevance asciiBuiltins ?r3 ?t = 175"
    using calculateRelevance_additive [of asciiBuiltins ?r3 ?t] h3 by blast
  from c1 c2 c3 show ?thesis by blast
qed

text \<open>
  Claim C1, as stated, at a record whose brand and model both equal the target's: the
  specification's rule gives 150, the code gives 225.
\<close>

theorem calculateRelevance_exact_counterexample:
  "exactBrand asciiBuiltins
     \<lparr>brand = Some ''Maruti'', model = Some ''Swift'', variant = None, year = None,
      boughtPrice = None, soldPrice = None, date = None\<rparr>
     \<lparr>t_brand = ''Maruti'', t_model = ''Swift''\<rparr>
   \<and> exactModel asciiBuiltins
     \<lparr>brand = Some ''Maruti'', model = Some ''Swift'', variant = None, year = None,
      boughtPrice = None, soldPrice = None, date = None\<rparr>
     \<lparr>t_brand = ''Maruti'', t_model = ''Swift''\<rparr>
   \<and> spec_relevance asciiBuiltins
     \<lparr>brand = Some ''Maruti'', model = Some ''Swift'', variant = None, year = None,
      boughtPrice = None, soldPrice = None, date = None\<rparr>
     \<lparr>t_brand = ''Maruti'', t_model = ''Swift''\<rparr> = 150
   \<and> calculateRelevance asciiBuiltins
     \<lparr>brand = Some ''Maruti'', model = Some ''Swift'', variant = None, year = None,
      boughtPrice = None, soldPrice = None, date = None\<rparr>
     \<lparr>t_brand = ''Maruti'', t_model = ''Swift''\<rparr> = 225"
  by (simp add: calculateRelevance_def spec_relevance_def exactBrand_def exactModel_def
      partialModel_def truthyStr_def interp_def Let_def includes_str_refl)

section \<open>Claim C6: the selector\<close>

subsection \<open>The comparator sort is the stable sort by key\<close>

lemma insertBy_insort_key:
  fixes f :: "'a \<Rightarrow> int"
  shows "insertBy (\<lambda>a b. f b - f a) x ys = insort_key (\<lambda>x. - f x) x ys"
  by (induction ys) auto

lemma sortBy_sort_key:
  fixes f :: "'a \<Rightarrow> int"
  shows "sortBy (\<lambda>a b. f b - f a) xs = sort_key (\<lambda>x. - f x) xs"
  by (induction xs) (simp_all add: sortBy_def sort_key_def insertBy_insort_key)

lemma insort_key_map_commute:
  "insort_key g (h x) (map h ys) = map h (insort_key (\<lambda>x. g (h x)) x ys)"
  by (induction ys) simp_all

lemma sort_key_map_commute:
  "sort_key g (map h xs) = map h (sort_key (\<lambda>x. g (h x)) xs)"
  by (induction xs) (simp_all add: insort_key_map_commute)

lemma slice0_map: "slice0 (map h xs) m = map h (slice0 xs m)"
  by (simp add: slice0_def Let_def take_map)

lemma slice0_prefix: "prefix (slice0 xs m) xs"
  by (simp add: slice0_def Let_def take_is_prefix)

lemma slice0_length: "0 \<le> m \<Longrightarrow> int (length (slice0 xs m)) \<le> m"
  by (simp add: slice0_def Let_def)

lemma slice0_nonneg: "0 \<le> m \<Longrightarrow> slice0 xs m = take (nat m) xs"
  by (simp add: slice0_def Let_def min_def)

text \<open>The selector without the intermediate pairs.\<close>

lemma smartFilter_eq:
  "smartFilter js records target m =
     slice0 (sort_key (\<lambda>r. - calculateRelevance js r target)
               (filter (\<lambda>r. 0 < calculateRelevance js r target) records)) m"
proof -
  let ?h = "\<lambda>r. (r, calculateRelevance js r target)"
  have "filter (\<lambda>item. snd item > 0) (map ?h records) =
        map ?h (filter (\<lambda>r. 0 < calculateRelevance js r target) records)"
    by (simp add: filter_map comp_def)
  then have "sortBy (\<lambda>a b. snd b - snd a) (filter (\<lambda>item. snd item > 0) (map ?h records)) =
        map ?h (sort_key (\<lambda>r. - calculateRelevance js r target)
                  (filter (\<lambda>r. 0 < calculateRelevance js r target) records))"
    by (simp add: sortBy_sort_key sort_key_map_commute)
  then show ?thesis
    by (simp add: smartFilter_def Let_def slice0_map comp_def)
qed

lemma prefix_mset_subseteq: "prefix xs ys \<Longrightarrow> mset xs \<subseteq># mset ys"
  by (auto simp: prefix_def)

lemma prefix_sorted_wrt: "prefix xs ys \<Longrightarrow> sorted_wrt R ys \<Longrightarrow> sorted_wrt R xs"
  by (auto simp: prefix_def sorted_wrt_append)

lemma prefix_filter: "prefix xs ys \<Longrightarrow> prefix (filter P xs) (filter P ys)"
  by (auto simp: prefix_def)

lemma smartFilter_prefix:
  "prefix (smartFilter js records target m)
     (sort_key (\<lambda>r. - calculateRelevance js r target)
        (filter (\<lambda>r. 0 < calculateRelevance js r target) records))"
  by (simp add: smartFilter_eq slice0_prefix)

lemma smartFilter_mset: "mset (smartFilter js records target m) \<subseteq># mset records"
proof -
  have "mset (smartFilter js records target m) \<subseteq>#
        mset (filter (\<lambda>r. 0 < calculateRelevance js r target) records)"
    using prefix_mset_subseteq [OF smartFilter_prefix [of js records target m]] by simp
  also have "\<dots> \<subseteq># mset records"
    by simp
  finally show ?thesis .
qed

lemma smartFilter_positive:
  assumes "r \<in> set (smartFilter js records target m)"
  shows "0 < calculateRelevance js r target"
proof -
  have "set (smartFilter js records target m) \<subseteq>
        set (sort_key (\<lambda>r. - calculateRelevance js r target)
               (filter (\<lambda>r. 0 < calculateRelevance js r target) records))"
    using smartFilter_prefix [of js records target m] by (rule set_mono_prefix)
  with assms show ?thesis by auto
qed

lemma smartFilter_sorted:
  "sorted_wrt (\<lambda>a b. calculateRelevance js b target \<le> calculateRelevance js a target)
     (smartFilter js records target m)"
proof -
  let ?g = "\<lambda>r. - calculateRelevance js r target"
  let ?F = "filter (\<lambda>r. 0 < calculateRelevance js r target) records"
  have "sorted (map ?g (sort_key ?g ?F))"
    by (rule sorted_sort_key)
  then have "sorted_wrt (\<lambda>a b. calculateRelevance js b target \<le> calculateRelevance js a target)
               (sort_key ?g ?F)"
    by (simp add: sorted_wrt_map)
  then show ?thesis
    using smartFilter_prefix [of js records target m] by (rule prefix_sorted_wrt [rotated])
qed

lemma smartFilter_stable:
  "prefix (filter (\<lambda>r. calculateRelevance js r target = k) (smartFilter js records target m))
          (filter (\<lambda>r. calculateRelevance js r target = k) records)"
proof (cases "0 < k")
  case True
  let ?g = "\<lambda>r. - calculateRelevance js r target"
  let ?F = "filter (\<lambda>r. 0 < calculateRelevance js r target) records"
  have "filter (\<lambda>r. ?g r = - k) (sort_key ?g ?F) = filter (\<lambda>r. ?g r = - k) ?F"
    by (rule sort_key_stable)
  also have "\<dots> = filter (\<lambda>r. calculateRelevance js r target = k) records"
    using True by (auto intro: filter_cong)
  finally have "filter (\<lambda>r. calculateRelevance js r target = k) (sort_key ?g ?F) =
                filter (\<lambda>r. calculateRelevance js r target = k) records"
    by simp
  then show ?thesis
    using prefix_filter [OF smartFilter_prefix [of js records target m],
        of "\<lambda>r. calculateRelevance js r target = k"]
    by simp
next
  case False
  then have "filter (\<lambda>r. calculateRelevance js r target = k) (smartFilter js records target m) = []"
    using smartFilter_positive [of _ js records target m] by (auto simp: filter_empty_conv)
  then show ?thesis by simp
qed

lemma smartFilter_length:
  "0 \<le> m \<Longrightarrow> int (length (smartFilter js records target m)) \<le> m"
  by (simp add: smartFilter_eq slice0_length)
lemma smartFilter_count:
  "0 \<le> m \<Longrightarrow>
   length (smartFilter js records target m) =
     min (nat m) (length (filter (\<lambda>r. 0 < calculateRelevance js r target) records))"
  by (simp add: smartFilter_eq slice0_nonneg)

text \<open>
  Claim C6. For every input, target and bound \<open>maxRecords\<close> (a count, so not negative;
  the composer passes 50), the output of the selector is a selection of the input's
  records (a sub-multiset of the input), has at most \<open>maxRecords\<close> records, contains no
  record of score 0, is ordered by non-increasing score, and the records of any one score
  come in their input order: they are a prefix of the input's records of that score.
  Nothing is dropped without need: the output has \<open>maxRecords\<close> records, or all records of
  positive score when these are fewer.
\<close>

theorem smartFilter_selects:
  assumes "0 \<le> maxRecords"
  shows "mset (smartFilter js records target maxRecords) \<subseteq># mset records
       \<and> int (length (smartFilter js records target maxRecords)) \<le> maxRecords
       \<and> (\<forall>r \<in> set (smartFilter js records target maxRecords). calculateRelevance js r target \<noteq> 0)
       \<and> sorted_wrt (\<lambda>a b. calculateRelevance js b target \<le> calculateRelevance js a target)
            (smartFilter js records target maxRecords)
       \<and> (\<forall>k. prefix
                 (filter (\<lambda>r. calculateRelevance js r target = k)
                    (smartFilter js records target maxRecords))
                 (filter (\<lambda>r. calculateRelevance js r target = k) records))
       \<and> length (smartFilter js records target maxRecords) =
           min (nat maxRecords)
             (length (filter (\<lambda>r. 0 < calculateRelevance js r target) records))"
proof -
  have nz: "\<forall>r \<in> set (smartFilter js records target maxRecords). calculateRelevance js r target \<noteq> 0"
    using smartFilter_positive [of _ js records target maxRecords] by fastforce
  have st: "\<forall>k. prefix
                 (filter (\<lambda>r. calculateRelevance js r target = k)
                    (smartFilter js records target maxRecords))
                 (filter (\<lambda>r. calculateRelevance js r target = k) records)"
    by (intro allI smartFilter_stable)
  show ?thesis
    by (intro conjI smartFilter_mset smartFilter_length [OF assms] nz smartFilter_sorted st
        smartFilter_count [OF assms])
qed

theorem smartFilter_selects_witness:
  "(0 :: int) \<le> 50
   \<and> smartFilter asciiBuiltins
        [\<lparr>brand = Some ''Maruti'', model = Some ''Alto'', variant = None, year = None,
          boughtPrice = None, soldPrice = None, date = None\<rparr>,
         \<lparr>brand = Some ''Honda'', model = Some ''City'', variant = None, year = None,
          boughtPrice = None, soldPrice = None, date = None\<rparr>,
         \<lparr>brand = Some ''Maruti'', model = Some ''Swift'', variant = None, year = None,
          boughtPrice = None, soldPrice = None, date = None\<rparr>]
        \<lparr>t_brand = ''Maruti'', t_model = ''Swift''\<rparr> 50
      = [\<lparr>brand = Some ''Maruti'', model = Some ''Swift'', variant = None, year = None,
          boughtPrice = None, soldPrice = None, date = None\<rparr>,
         \<lparr>brand = Some ''Maruti'', model = Some ''Alto'', variant = None, year = None,
          boughtPrice = None, soldPrice = None, date = None\<rparr>]
   \<and> int (length (smartFilter asciiBuiltins
        [\<lparr>brand = Some ''Maruti'', model = Some ''Alto'', variant = None, year = None,
          boughtPrice = None, soldPrice = None, date = None\<rparr>,
         \<lparr>brand = Some ''Honda'', model = Some ''City'', variant = None, year = None,
          boughtPrice = None, soldPrice = None, date = None\<rparr>,
         \<lparr>brand = Some ''Maruti'', model = Some ''Swift'', variant = None, year = None,
          boughtPrice = None, soldPrice = None, date = None\<rparr>]
        \<lparr>t_brand = ''Maruti'', t_model = ''Swift''\<rparr> 50)) \<le> 50"
proof -
  let ?a = "\<lparr>brand = Some ''Maruti'', model = Some ''Alto'', variant = None, year = None,
             boughtPrice = None, soldPrice = None, date = None\<rparr>"
  let ?h = "\<lparr>brand = Some ''Honda'', model = Some ''City'', variant = None, year = None,
             boughtPrice = None, soldPrice = None, date = None\<rparr>"
  let ?s = "\<lparr>brand = Some ''Maruti'', model = Some ''Swift'', variant = None, year = None,
             boughtPrice = None, soldPrice = None, date = None\<rparr>"
  let ?t = "\<lparr>t_brand = ''Maruti'', t_model = ''Swift''\<rparr>"
  have h: "(0 :: int) \<le> 50" by simp
  have a: "calculateRelevance asciiBuiltins ?a ?t = 50"
    and c: "calculateRelevance asciiBuiltins ?h ?t = 0"
    and s: "calculateRelevance asciiBuiltins ?s ?t = 225"
    by (simp_all add: calculateRelevance_def asciiBuiltins_def ascii_lower_words truthyStr_def
        interp_def)
  have out: "smartFilter asciiBuiltins [?a, ?h, ?s] ?t 50 = [?s, ?a]"
    by (simp add: smartFilter_def sortBy_def slice0_def a c s)
  from conjunct1 [OF conjunct2 [OF smartFilter_selects [OF h, of asciiBuiltins "[?a, ?h, ?s]" ?t]]]
  have "int (length (smartFilter asciiBuiltins [?a, ?h, ?s] ?t 50)) \<le> 50" .
  with h out show ?thesis by (intro conjI)
qed

section \<open>Claim C8: the sensitivity checker\<close>

lemma matchHere_Once:
  "matchHere (Once p # r) s \<longleftrightarrow> (\<exists>c cs. s = c # cs \<and> p c \<and> matchHere r cs)"
  by (cases s) simp_all

lemma matchHere_AtLeast:
  "matchHere (AtLeast n p # r) s \<longleftrightarrow>
     (\<exists>ds rest. s = ds @ rest \<and> n \<le> length ds \<and> (\<forall>c \<in> set ds. p c) \<and> matchHere r rest)"
proof (induction s arbitrary: n)
  case Nil
  then show ?case by auto
next
  case (Cons c cs)
  show ?case
  proof
    assume "matchHere (AtLeast n p # r) (c # cs)"
    then consider (skip) "n = 0" "matchHere r (c # cs)"
      | (take) "p c" "matchHere (AtLeast (n - 1) p # r) cs"
      by auto
    then show "\<exists>ds rest. c # cs = ds @ rest \<and> n \<le> length ds \<and> (\<forall>c \<in> set ds. p c) \<and> matchHere r rest"
    proof cases
      case skip
      then have "c # cs = [] @ (c # cs) \<and> n \<le> length ([] :: string) \<and>
                 (\<forall>c \<in> set ([] :: string). p c) \<and> matchHere r (c # cs)"
        by simp
      then show ?thesis by blast
    next
      case take
      then obtain ds rest where d: "cs = ds @ rest" "n - 1 \<le> length ds" "\<forall>c \<in> set ds. p c"
        "matchHere r rest"
        using Cons.IH [of "n - 1"] by auto
      with take(1) have "c # cs = (c # ds) @ rest \<and> n \<le> length (c # ds) \<and>
                 (\<forall>x \<in> set (c # ds). p x) \<and> matchHere r rest"
        by auto
      then show ?thesis by blast
    qed
  next
    assume "\<exists>ds rest. c # cs = ds @ rest \<and> n \<le> length ds \<and> (\<forall>c \<in> set ds. p c) \<and> matchHere r rest"
    then obtain ds rest where d: "c # cs = ds @ rest" "n \<le> length ds" "\<forall>c \<in> set ds. p c"
      "matchHere r rest"
      by blast
    show "matchHere (AtLeast n p # r) (c # cs)"
    proof (cases ds)
      case Nil
      with d have "rest = c # cs" "n = 0" by simp_all
      with d(4) show ?thesis by simp
    next
      case (Cons d ds')
      with d have "cs = ds' @ rest" "n - 1 \<le> length ds'" "\<forall>c \<in> set ds'. p c" "p c"
        by auto
      with d(4) have "matchHere (AtLeast (n - 1) p # r) cs"
        using Cons.IH [of "n - 1"] by blast
      with \<open>p c\<close> show ?thesis by simp
    qed
  qed
qed

lemma matchHere_literal_i:
  "matchHere (literal_i w @ r) s \<longleftrightarrow>
     (\<exists>u rest. s = u @ rest \<and> asciiLower u = asciiLower w \<and> matchHere r rest)"
proof (induction w arbitrary: s)
  case Nil
  then show ?case by (simp add: literal_i_def asciiLower_def)
next
  case (Cons x w)
  have "matchHere (literal_i (x # w) @ r) s \<longleftrightarrow>
        (\<exists>c cs. s = c # cs \<and> asciiLowerChar c = asciiLowerChar x \<and> matchHere (literal_i w @ r) cs)"
    by (simp add: literal_i_def matchHere_Once)
  also have "\<dots> \<longleftrightarrow> (\<exists>c cs. s = c # cs \<and> asciiLowerChar c = asciiLowerChar x \<and>
        (\<exists>u rest. cs = u @ rest \<and> asciiLower u = asciiLower w \<and> matchHere r rest))"
    by (simp add: Cons.IH)
  also have "\<dots> \<longleftrightarrow> (\<exists>u rest. s = u @ rest \<and> asciiLower u = asciiLower (x # w) \<and> matchHere r rest)"
  proof
    assume "\<exists>c cs. s = c # cs \<and> asciiLowerChar c = asciiLowerChar x \<and>
        (\<exists>u rest. cs = u @ rest \<and> asciiLower u = asciiLower w \<and> matchHere r rest)"
    then obtain c cs u rest where "s = c # cs" "asciiLowerChar c = asciiLowerChar x" "cs = u @ rest"
      "asciiLower u = asciiLower w" "matchHere r rest"
      by blast
    then have "s = (c # u) @ rest \<and> asciiLower (c # u) = asciiLower (x # w) \<and> matchHere r rest"
      by (simp add: asciiLower_def)
    then show "\<exists>u rest. s = u @ rest \<and> asciiLower u = asciiLower (x # w) \<and> matchHere r rest"
      by blast
  next
    assume "\<exists>u rest. s = u @ rest \<and> asciiLower u = asciiLower (x # w) \<and> matchHere r rest"
    then obtain u rest where u: "s = u @ rest" "asciiLower u = asciiLower (x # w)"
      "matchHere r rest"
      by blast
    from u(2) obtain c u' where "u = c # u'" "asciiLowerChar c = asciiLowerChar x"
      "asciiLower u' = asciiLower w"
      by (cases u) (auto simp: asciiLower_def)
    with u show "\<exists>c cs. s = c # cs \<and> asciiLowerChar c = asciiLowerChar x \<and>
        (\<exists>u rest. cs = u @ rest \<and> asciiLower u = asciiLower w \<and> matchHere r rest)"
      by auto
  qed
  finally show ?case .
qed

lemma regexTest_iff:
  "regexTest r s \<longleftrightarrow> (\<exists>pre rest. s = pre @ rest \<and> matchHere r rest)"
proof (induction s)
  case Nil
  then show ?case by simp
next
  case (Cons c cs)
  show ?case
  proof
    assume "regexTest r (c # cs)"
    then consider "matchHere r (c # cs)" | "regexTest r cs" by auto
    then show "\<exists>pre rest. c # cs = pre @ rest \<and> matchHere r rest"
    proof cases
      case 1
      then have "c # cs = [] @ (c # cs) \<and> matchHere r (c # cs)" by simp
      then show ?thesis by blast
    next
      case 2
      then obtain pre rest where "cs = pre @ rest" "matchHere r rest"
        using Cons.IH by blast
      then have "c # cs = (c # pre) @ rest \<and> matchHere r rest" by simp
      then show ?thesis by blast
    qed
  next
    assume "\<exists>pre rest. c # cs = pre @ rest \<and> matchHere r rest"
    then obtain pre rest where p: "c # cs = pre @ rest" "matchHere r rest" by blast
    show "regexTest r (c # cs)"
    proof (cases pre)
      case Nil
      with p have "rest = c # cs" by simp
      with p(2) show ?thesis by simp
    next
      case (Cons a pre')
      with p have "cs = pre' @ rest" by simp
      with p(2) have "regexTest r cs" using Cons.IH by blast
      then show ?thesis by simp
    qed
  qed
qed

text \<open>The first pattern, \<^verbatim>\<open>/\d{5,}/\<close>.\<close>

lemma digits_pattern:
  "regexTest [AtLeast 5 isDigit] t \<longleftrightarrow>
     (\<exists>pre ds post. t = pre @ ds @ post \<and> 5 \<le> length ds \<and> (\<forall>c \<in> set ds. isDigit c))"
  by (simp add: regexTest_iff matchHere_AtLeast) blast

lemma includes_str_iff: "includes_str s sub \<longleftrightarrow> (\<exists>u v. s = u @ sub @ v)"
proof (induction s)
  case Nil
  then show ?case by auto
next
  case (Cons c cs)
  show ?case
  proof
    assume "includes_str (c # cs) sub"
    then consider "prefix sub (c # cs)" | "includes_str cs sub" by auto
    then show "\<exists>u v. c # cs = u @ sub @ v"
    proof cases
      case 1
      then obtain v where "c # cs = [] @ sub @ v" by (auto simp: prefix_def)
      then show ?thesis by blast
    next
      case 2
      then obtain u v where "cs = u @ sub @ v" using Cons.IH by blast
      then have "c # cs = (c # u) @ sub @ v" by simp
      then show ?thesis by blast
    qed
  next
    assume "\<exists>u v. c # cs = u @ sub @ v"
    then obtain u v where uv: "c # cs = u @ sub @ v" by blast
    show "includes_str (c # cs) sub"
    proof (cases u)
      case Nil
      with uv have "prefix sub (c # cs)" by (simp add: prefix_def)
      then show ?thesis by simp
    next
      case (Cons a u')
      with uv have "cs = u' @ sub @ v" by simp
      then have "includes_str cs sub" using Cons.IH by blast
      then show ?thesis by simp
    qed
  qed
qed

text \<open>No line terminator starts inside \<open>mid\<close>, read with what follows it.\<close>

lemma matchHere_AnyStar:
  "matchHere (AnyStar # r) s \<longleftrightarrow>
     (\<exists>mid rest. s = mid @ rest \<and>
        (\<forall>u v. mid = u @ v \<longrightarrow> v \<noteq> [] \<longrightarrow> \<not> lineTerminatorAt (v @ rest)) \<and>
        matchHere r rest)"
proof (induction s)
  case Nil
  then show ?case by auto
next
  case (Cons c cs)
  show ?case
  proof
    assume "matchHere (AnyStar # r) (c # cs)"
    then consider (stop) "matchHere r (c # cs)"
      | (step) "\<not> lineTerminatorAt (c # cs)" "matchHere (AnyStar # r) cs"
      by auto
    then show "\<exists>mid rest. c # cs = mid @ rest \<and>
        (\<forall>u v. mid = u @ v \<longrightarrow> v \<noteq> [] \<longrightarrow> \<not> lineTerminatorAt (v @ rest)) \<and> matchHere r rest"
    proof cases
      case stop
      then have "c # cs = [] @ (c # cs) \<and>
          (\<forall>u v. ([] :: string) = u @ v \<longrightarrow> v \<noteq> [] \<longrightarrow> \<not> lineTerminatorAt (v @ c # cs)) \<and>
          matchHere r (c # cs)"
        by simp
      then show ?thesis by blast
    next
      case step
      then obtain mid rest where m: "cs = mid @ rest"
        "\<forall>u v. mid = u @ v \<longrightarrow> v \<noteq> [] \<longrightarrow> \<not> lineTerminatorAt (v @ rest)" "matchHere r rest"
        using Cons.IH by blast
      have "\<forall>u v. c # mid = u @ v \<longrightarrow> v \<noteq> [] \<longrightarrow> \<not> lineTerminatorAt (v @ rest)"
      proof (intro allI impI)
        fix u v assume uv: "c # mid = u @ v" "v \<noteq> []"
        show "\<not> lineTerminatorAt (v @ rest)"
        proof (cases u)
          case Nil
          with uv m(1) have "v @ rest = c # cs" by simp
          with step(1) show ?thesis by simp
        next
          case (Cons a u')
          with uv have "mid = u' @ v" by simp
          with m(2) uv(2) show ?thesis by blast
        qed
      qed
      with m have "c # cs = (c # mid) @ rest \<and>
          (\<forall>u v. c # mid = u @ v \<longrightarrow> v \<noteq> [] \<longrightarrow> \<not> lineTerminatorAt (v @ rest)) \<and>
          matchHere r rest"
        by simp
      then show ?thesis by blast
    qed
  next
    assume "\<exists>mid rest. c # cs = mid @ rest \<and>
        (\<forall>u v. mid = u @ v \<longrightarrow> v \<noteq> [] \<longrightarrow> \<not> lineTerminatorAt (v @ rest)) \<and> matchHere r rest"
    then obtain mid rest where m: "c # cs = mid @ rest"
      "\<forall>u v. mid = u @ v \<longrightarrow> v \<noteq> [] \<longrightarrow> \<not> lineTerminatorAt (v @ rest)" "matchHere r rest"
      by blast
    show "matchHere (AnyStar # r) (c # cs)"
    proof (cases mid)
      case Nil
      with m have "rest = c # cs" by simp
      with m(3) show ?thesis by simp
    next
      case (Cons a mid')
      with m(1) have eq: "a = c" "cs = mid' @ rest" by simp_all
      from m(2) Cons have "\<not> lineTerminatorAt (mid @ rest)"
        by (metis append_Nil list.distinct(1))
      with m(1) have 1: "\<not> lineTerminatorAt (c # cs)" by simp
      have "\<forall>u v. mid' = u @ v \<longrightarrow> v \<noteq> [] \<longrightarrow> \<not> lineTerminatorAt (v @ rest)"
      proof (intro allI impI)
        fix u v assume "mid' = u @ v" "v \<noteq> []"
        then have "mid = (a # u) @ v" "v \<noteq> []" using Cons by simp_all
        with m(2) show "\<not> lineTerminatorAt (v @ rest)" by blast
      qed
      with eq(2) m(3) have "matchHere (AnyStar # r) cs"
        using Cons.IH by blast
      with 1 show ?thesis by simp
    qed
  qed
qed

lemma digit_bytes:
  "isDigit d \<Longrightarrow> d \<noteq> CHR 0x80" "isDigit d \<Longrightarrow> d \<noteq> CHR 0xA8" "isDigit d \<Longrightarrow> d \<noteq> CHR 0xA9"
  by (auto simp: isDigit_def)

lemma terminator_before_digit:
  assumes "isDigit d" and "mid = u @ v" and "v \<noteq> []"
    and "prefix [CHR 0xE2, CHR 0x80, z] (v @ d # post)" and "d \<noteq> CHR 0x80" and "d \<noteq> z"
  shows "includes_str mid [CHR 0xE2, CHR 0x80, z]"
proof -
  from assms(3) obtain x v1 where v: "v = x # v1" by (cases v) auto
  show ?thesis
  proof (cases v1)
    case Nil
    with v assms(4,5) show ?thesis by simp
  next
    case (Cons y v2)
    show ?thesis
    proof (cases v2)
      case Nil
      with v Cons assms(4,6) show ?thesis by simp
    next
      case (Cons w v3)
      with v \<open>v1 = y # v2\<close> assms(4) have "v = [CHR 0xE2, CHR 0x80, z] @ v3" by simp
      with assms(2) have "mid = u @ [CHR 0xE2, CHR 0x80, z] @ v3" by simp
      then show ?thesis unfolding includes_str_iff by blast
    qed
  qed
qed

lemma clear_iff_no_terminator:
  assumes "isDigit d"
  shows "(\<forall>u v. mid = u @ v \<longrightarrow> v \<noteq> [] \<longrightarrow> \<not> lineTerminatorAt (v @ d # post)) \<longleftrightarrow>
         \<not> hasLineTerminator mid"
proof
  assume clear: "\<forall>u v. mid = u @ v \<longrightarrow> v \<noteq> [] \<longrightarrow> \<not> lineTerminatorAt (v @ d # post)"
  show "\<not> hasLineTerminator mid"
  proof
    assume "hasLineTerminator mid"
    then consider (b) c where "c = CHR 0x0A \<or> c = CHR 0x0D" "c \<in> set mid"
      | (s) sq where "sq = [CHR 0xE2, CHR 0x80, CHR 0xA8] \<or> sq = [CHR 0xE2, CHR 0x80, CHR 0xA9]"
          "includes_str mid sq"
      unfolding hasLineTerminator_def by blast
    then show False
    proof cases
      case b
      from b(2) obtain u v where "mid = u @ c # v" by (auto dest: split_list)
      moreover from b(1) have "lineTerminatorAt ((c # v) @ d # post)"
        by (auto simp: lineTerminatorAt_def)
      ultimately show False using clear by blast
    next
      case s
      from s(2) obtain u v where "mid = u @ sq @ v" unfolding includes_str_iff by blast
      moreover from s(1) have "lineTerminatorAt ((sq @ v) @ d # post)" "sq @ v \<noteq> []"
        by (auto simp: lineTerminatorAt_def)
      ultimately show False using clear by blast
    qed
  qed
next
  assume no: "\<not> hasLineTerminator mid"
  show "\<forall>u v. mid = u @ v \<longrightarrow> v \<noteq> [] \<longrightarrow> \<not> lineTerminatorAt (v @ d # post)"
  proof (intro allI impI notI)
    fix u v assume uv: "mid = u @ v" "v \<noteq> []" and lt: "lineTerminatorAt (v @ d # post)"
    from uv(2) obtain x v1 where v: "v = x # v1" by (cases v) auto
    from lt consider "x = CHR 0x0A" | "x = CHR 0x0D"
      | "prefix [CHR 0xE2, CHR 0x80, CHR 0xA8] (v @ d # post)"
      | "prefix [CHR 0xE2, CHR 0x80, CHR 0xA9] (v @ d # post)"
      unfolding lineTerminatorAt_def v by auto
    then have "hasLineTerminator mid"
    proof cases
      case 1
      with uv(1) v show ?thesis by (simp add: hasLineTerminator_def)
    next
      case 2
      with uv(1) v show ?thesis by (simp add: hasLineTerminator_def)
    next
      case 3
      from terminator_before_digit [OF assms uv this digit_bytes(1) [OF assms]
          digit_bytes(2) [OF assms]]
      show ?thesis by (simp add: hasLineTerminator_def)
    next
      case 4
      from terminator_before_digit [OF assms uv this digit_bytes(1) [OF assms]
          digit_bytes(3) [OF assms]]
      show ?thesis by (simp add: hasLineTerminator_def)
    qed
    with no show False ..
  qed
qed

text \<open>The other four patterns, \<^verbatim>\<open>/word.*\d+/i\<close>.\<close>

lemma keyword_pattern:
  "regexTest (literal_i kw @ [AnyStar, AtLeast 1 isDigit]) t \<longleftrightarrow>
     (\<exists>pre w mid d post. t = pre @ w @ mid @ [d] @ post \<and> asciiLower w = asciiLower kw \<and>
        \<not> hasLineTerminator mid \<and> isDigit d)"
proof
  assume "regexTest (literal_i kw @ [AnyStar, AtLeast 1 isDigit]) t"
  then obtain pre w mid ds post where m: "t = pre @ w @ mid @ ds @ post"
    "asciiLower w = asciiLower kw"
    "\<forall>u v. mid = u @ v \<longrightarrow> v \<noteq> [] \<longrightarrow> \<not> lineTerminatorAt (v @ ds @ post)"
    "1 \<le> length ds" "\<forall>c \<in> set ds. isDigit c"
    unfolding regexTest_iff matchHere_literal_i matchHere_AnyStar matchHere_AtLeast
    by auto
  from m(4) obtain d ds' where ds: "ds = d # ds'" by (cases ds) auto
  with m(5) have d: "isDigit d" by simp
  from m(3) have "\<not> hasLineTerminator mid"
    unfolding ds using clear_iff_no_terminator [OF d, of mid "ds' @ post"] by simp
  with m(1,2) d ds have "t = pre @ w @ mid @ [d] @ (ds' @ post) \<and> asciiLower w = asciiLower kw \<and>
        \<not> hasLineTerminator mid \<and> isDigit d"
    by simp
  then show "\<exists>pre w mid d post. t = pre @ w @ mid @ [d] @ post \<and> asciiLower w = asciiLower kw \<and>
        \<not> hasLineTerminator mid \<and> isDigit d"
    by blast
next
  assume "\<exists>pre w mid d post. t = pre @ w @ mid @ [d] @ post \<and> asciiLower w = asciiLower kw \<and>
        \<not> hasLineTerminator mid \<and> isDigit d"
  then obtain pre w mid d post where m: "t = pre @ w @ mid @ [d] @ post"
    "asciiLower w = asciiLower kw" "\<not> hasLineTerminator mid" "isDigit d"
    by blast
  have 1: "matchHere [AtLeast 1 isDigit] ([d] @ post)"
    unfolding matchHere_AtLeast using m(4) by (intro exI [of _ "[d]"] exI [of _ post]) simp
  have c: "\<forall>u v. mid = u @ v \<longrightarrow> v \<noteq> [] \<longrightarrow> \<not> lineTerminatorAt (v @ [d] @ post)"
    using clear_iff_no_terminator [OF m(4), of mid post] m(3) by simp
  have 2: "matchHere [AnyStar, AtLeast 1 isDigit] (mid @ [d] @ post)"
    unfolding matchHere_AnyStar [of "[AtLeast 1 isDigit]"]
    using c 1 by (intro exI [of _ mid] exI [of _ "[d] @ post"]) simp
  have 3: "matchHere (literal_i kw @ [AnyStar, AtLeast 1 isDigit]) (w @ mid @ [d] @ post)"
    unfolding matchHere_literal_i
    using m(2) 2 by (intro exI [of _ w] exI [of _ "mid @ [d] @ post"]) simp
  show "regexTest (literal_i kw @ [AnyStar, AtLeast 1 isDigit]) t"
    unfolding regexTest_iff using m(1) 3 by blast
qed

lemma asciiLower_keywords:
  "asciiLower ''bought'' = ''bought''" "asciiLower ''sold'' = ''sold''"
  "asciiLower ''price'' = ''price''" "asciiLower ''margin'' = ''margin''"
  by (simp_all add: asciiLower_def asciiLowerChar_def)

text \<open>
  Claim C8, as the code has it. The checker returns true if and only if the text
  contains a run of 5 or more consecutive digits, or one of the words bought, sold,
  price, margin (in any case) followed on the same line, with no line terminator (line
  feed, carriage return, U+2028, U+2029) in between, by a digit. It returns true on
  "bought for 450000" and false on "This car has good mileage".
\<close>

theorem containsSensitiveData_iff:
  "(containsSensitiveData t \<longleftrightarrow>
      (\<exists>pre ds post. t = pre @ ds @ post \<and> 5 \<le> length ds \<and> (\<forall>c \<in> set ds. isDigit c))
    \<or> (\<exists>kw \<in> set [''bought'', ''sold'', ''price'', ''margin''].
         \<exists>pre w mid d post. t = pre @ w @ mid @ [d] @ post \<and> asciiLower w = kw \<and>
           \<not> hasLineTerminator mid \<and> isDigit d))
   \<and> containsSensitiveData ''bought for 450000''
   \<and> \<not> containsSensitiveData ''This car has good mileage''"
proof (intro conjI)
  let ?D = "\<exists>pre ds post. t = pre @ ds @ post \<and> 5 \<le> length ds \<and> (\<forall>c \<in> set ds. isDigit c)"
  let ?K = "\<lambda>kw. \<exists>pre w mid d post. t = pre @ w @ mid @ [d] @ post \<and> asciiLower w = kw \<and>
              \<not> hasLineTerminator mid \<and> isDigit d"
  have k: "regexTest (literal_i kw @ [AnyStar, AtLeast 1 isDigit]) t \<longleftrightarrow> ?K kw"
    if "asciiLower kw = kw" for kw
    unfolding keyword_pattern that ..
  have "containsSensitiveData t \<longleftrightarrow>
          regexTest [AtLeast 5 isDigit] t
        \<or> regexTest (literal_i ''bought'' @ [AnyStar, AtLeast 1 isDigit]) t
        \<or> regexTest (literal_i ''sold'' @ [AnyStar, AtLeast 1 isDigit]) t
        \<or> regexTest (literal_i ''price'' @ [AnyStar, AtLeast 1 isDigit]) t
        \<or> regexTest (literal_i ''margin'' @ [AnyStar, AtLeast 1 isDigit]) t"
    by (simp only: containsSensitiveData_def sensitivePatterns_def list_ex_Cons_iff
        list_ex_Nil_iff simp_thms)
  also have "\<dots> \<longleftrightarrow> ?D \<or> ?K ''bought'' \<or> ?K ''sold'' \<or> ?K ''price'' \<or> ?K ''margin''"
    by (simp only: digits_pattern k [OF asciiLower_keywords(1)] k [OF asciiLower_keywords(2)]
        k [OF asciiLower_keywords(3)] k [OF asciiLower_keywords(4)])
  also have "\<dots> \<longleftrightarrow> ?D \<or> (\<exists>kw \<in> set [''bought'', ''sold'', ''price'', ''margin'']. ?K kw)"
    by (simp only: list.set bex_simps insert_iff ball_simps empty_iff simp_thms bex_triv_one_point1
        bex_triv_one_point2)
  finally show "containsSensitiveData t \<longleftrightarrow> ?D \<or>
      (\<exists>kw \<in> set [''bought'', ''sold'', ''price'', ''margin'']. ?K kw)" .
  show "containsSensitiveData ''bought for 450000''"
    by code_simp
  show "\<not> containsSensitiveData ''This car has good mileage''"
    by code_simp
qed

theorem containsSensitiveData_iff_witness:
  "containsSensitiveData ''Sale PRICE: 7 lakh''"
proof -
  have d: "''Sale PRICE: 7 lakh'' = ''Sale '' @ ''PRICE'' @ '': '' @ [CHR ''7''] @ '' lakh''"
    by simp
  have l: "asciiLower ''PRICE'' = ''price''"
    by (simp add: asciiLower_def asciiLowerChar_def)
  have m: "\<not> hasLineTerminator '': ''"
    by (simp add: hasLineTerminator_def)
  have g: "isDigit CHR ''7''"
    by (simp add: isDigit_def)
  have kw: "''price'' \<in> set [''bought'', ''sold'', ''price'', ''margin'']"
    by simp
  have "\<exists>kw \<in> set [''bought'', ''sold'', ''price'', ''margin''].
        \<exists>pre w mid d post. ''Sale PRICE: 7 lakh'' = pre @ w @ mid @ [d] @ post \<and>
        asciiLower w = kw \<and> \<not> hasLineTerminator mid \<and> isDigit d"
    by (rule bexI [OF _ kw]) (intro exI conjI, rule d, rule l, rule m, rule g)
  then show ?thesis
    by (rule iffD2 [OF conjunct1 [OF containsSensitiveData_iff], OF disjI2])
qed

text \<open>
  Claim C8, as stated, at the word and a digit on two lines: a digit follows later in the
  string, so the specification's rule flags the text, and the checker does not.
\<close>

theorem containsSensitiveData_newline_counterexample:
  "spec_containsSensitiveData (''bought'' @ [CHR 0x0A] @ ''5'')
   \<and> \<not> containsSensitiveData (''bought'' @ [CHR 0x0A] @ ''5'')"
  by code_simp

text \<open>The same word and digit with U+2028 between them: the checker returns false.\<close>

lemma line_separator_example:
  "\<not> containsSensitiveData (''bought'' @ [CHR 0xE2, CHR 0x80, CHR 0xA8] @ ''5'')"
  by code_simp

section \<open>Claim C7: degenerate ledgers\<close>

subsection \<open>The ASCII trim\<close>

lemma asciiSpace_LF: "asciiSpace (CHR 0x0A)"
  by (simp add: asciiSpace_def)

lemma asciiTrim_Nil_iff: "asciiTrim s = [] \<longleftrightarrow> (\<forall>c \<in> set s. asciiSpace c)"
proof -
  let ?d = "dropWhile asciiSpace s"
  have 1: "asciiTrim s = [] \<longleftrightarrow> (\<forall>c \<in> set ?d. asciiSpace c)"
    by (simp add: asciiTrim_def dropWhile_eq_Nil_conv)
  show ?thesis
  proof
    assume "asciiTrim s = []"
    with 1 have a: "\<forall>c \<in> set ?d. asciiSpace c" by blast
    have "?d = []"
    proof (rule ccontr)
      assume ne: "?d \<noteq> []"
      then have "\<not> asciiSpace (hd ?d)"
        by (rule hd_dropWhile)
      moreover from ne have "hd ?d \<in> set ?d"
        by (rule hd_in_set)
      ultimately show False using a by blast
    qed
    then show "\<forall>c \<in> set s. asciiSpace c"
      by (simp only: dropWhile_eq_Nil_conv)
  next
    assume "\<forall>c \<in> set s. asciiSpace c"
    then have "\<forall>c \<in> set ?d. asciiSpace c"
      by (blast dest: set_dropWhileD)
    with 1 show "asciiTrim s = []" by blast
  qed
qed

lemma asciiTrim_decomp: "\<exists>ws1 ws2. s = ws1 @ asciiTrim s @ ws2"
proof -
  let ?d = "dropWhile asciiSpace s"
  let ?e = "dropWhile asciiSpace (rev ?d)"
  have "rev (takeWhile asciiSpace (rev ?d) @ ?e) = ?d"
    by (simp only: takeWhile_dropWhile_id rev_rev_ident)
  then have "rev ?e @ rev (takeWhile asciiSpace (rev ?d)) = ?d"
    by (simp only: rev_append)
  then have "asciiTrim s @ rev (takeWhile asciiSpace (rev ?d)) = ?d"
    by (simp only: asciiTrim_def)
  moreover have "takeWhile asciiSpace s @ ?d = s"
    by (rule takeWhile_dropWhile_id)
  ultimately have "s = takeWhile asciiSpace s @ asciiTrim s @ rev (takeWhile asciiSpace (rev ?d))"
    by metis
  then show ?thesis by blast
qed

lemma asciiTrim_ends:
  assumes "asciiTrim s \<noteq> []"
  shows "\<not> asciiSpace (hd (asciiTrim s))" and "\<not> asciiSpace (last (asciiTrim s))"
proof -
  let ?d = "dropWhile asciiSpace s"
  let ?e = "dropWhile asciiSpace (rev ?d)"
  from assms have e: "?e \<noteq> []"
    by (simp add: asciiTrim_def)
  have d: "?d \<noteq> []"
  proof
    assume "?d = []"
    then have "?e = []" by (simp only: rev.simps dropWhile.simps)
    with e show False ..
  qed
  have t: "asciiTrim s = rev ?e"
    by (simp only: asciiTrim_def)
  have "last (rev ?e) = hd ?e"
    using e by (simp only: last_rev)
  moreover have "\<not> asciiSpace (hd ?e)"
    using e by (rule hd_dropWhile)
  ultimately show "\<not> asciiSpace (last (asciiTrim s))"
    by (metis t)
  have "takeWhile asciiSpace (rev ?d) @ ?e = rev ?d"
    by (rule takeWhile_dropWhile_id)
  then have "last (rev ?d) = last (takeWhile asciiSpace (rev ?d) @ ?e)"
    by (simp only:)
  also have "\<dots> = last ?e"
    using e by (rule last_appendR)
  finally have "last ?e = hd ?d"
    using d by (simp only: last_rev)
  moreover have "hd (rev ?e) = last ?e"
    using e by (simp only: hd_rev)
  moreover have "\<not> asciiSpace (hd ?d)"
    using d by (rule hd_dropWhile)
  ultimately show "\<not> asciiSpace (hd (asciiTrim s))"
    by (metis t)
qed

lemma trimsEnds_asciiTrim: "trimsEnds asciiTrim"
  unfolding trimsEnds_def
proof (intro allI conjI impI)
  fix s
  show "\<exists>pre post. s = pre @ asciiTrim s @ post"
    by (rule asciiTrim_decomp)
next
  fix s assume ne: "asciiTrim s \<noteq> []"
  from asciiTrim_ends(1) [OF ne] asciiSpace_LF show "hd (asciiTrim s) \<noteq> CHR 0x0A"
    by metis
  from asciiTrim_ends(2) [OF ne] asciiSpace_LF show "last (asciiTrim s) \<noteq> CHR 0x0A"
    by metis
qed

subsection \<open>Lines\<close>

lemma split_single: "c \<notin> set s \<Longrightarrow> split c s = [s]"
  by (induction s) auto

lemma split_not_Nil: "split c s \<noteq> []"
  by (induction s) (auto split: list.splits)

lemma split_append: "split c (x @ c # y) = split c x @ split c y"
proof (induction x)
  case Nil
  then show ?case by simp
next
  case (Cons a x)
  then show ?case
    using split_not_Nil [of c x] by (auto split: list.splits)
qed

lemma split_covers:
  assumes "d \<in> set s" and "d \<noteq> c"
  shows "\<exists>l \<in> set (split c s). d \<in> set l"
  using assms
proof (induction s)
  case Nil
  then show ?case by simp
next
  case (Cons a s)
  show ?case
  proof (cases "d \<in> set s")
    case True
    then obtain l where "l \<in> set (split c s)" "d \<in> set l"
      using Cons by blast
    then show ?thesis
      by (cases "split c s") (auto split: list.splits)
  next
    case False
    with Cons.prems have "a = d" "a \<noteq> c" by auto
    then show ?thesis
      using split_not_Nil [of c s] by (cases "split c s") auto
  qed
qed

lemma nonempty_line_count:
  assumes "\<exists>d \<in> set s. d \<noteq> CHR 0x0A"
  shows "1 \<le> length (filter (\<lambda>l. l \<noteq> []) (split (CHR 0x0A) s))"
proof -
  from assms obtain d where d: "d \<in> set s" "d \<noteq> CHR 0x0A" by blast
  then obtain l where "l \<in> set (split (CHR 0x0A) s)" "d \<in> set l"
    using split_covers by blast
  then have "l \<in> set (split (CHR 0x0A) s)" "l \<noteq> []"
    by auto
  then have "filter (\<lambda>l. l \<noteq> []) (split (CHR 0x0A) s) \<noteq> []"
    unfolding filter_empty_conv by blast
  then show ?thesis
    by (cases "filter (\<lambda>l. l \<noteq> []) (split (CHR 0x0A) s)") auto
qed

lemma trimmed_one_line:
  assumes t: "trimsEnds f"
    and few: "length (filter (\<lambda>l. l \<noteq> []) (split (CHR 0x0A) s)) < 2"
  shows "CHR 0x0A \<notin> set (f s)"
proof
  assume "CHR 0x0A \<in> set (f s)"
  then obtain u v where uv: "f s = u @ CHR 0x0A # v"
    by (auto dest: split_list)
  then have ne: "f s \<noteq> []" by simp
  from t ne have ends: "hd (f s) \<noteq> CHR 0x0A" "last (f s) \<noteq> CHR 0x0A"
    unfolding trimsEnds_def by blast+
  have "u \<noteq> []"
  proof
    assume "u = []"
    with uv have "hd (f s) = CHR 0x0A" by simp
    with ends(1) show False by simp
  qed
  then have "hd (f s) \<in> set u"
    using uv by (cases u) auto
  with ends(1) have u: "\<exists>d \<in> set u. d \<noteq> CHR 0x0A" by blast
  have "v \<noteq> []"
  proof
    assume "v = []"
    with uv have "last (f s) = CHR 0x0A" by simp
    with ends(2) show False by simp
  qed
  then have "last (f s) \<in> set v"
    using uv by (simp add: last_in_set)
  with ends(2) have v: "\<exists>d \<in> set v. d \<noteq> CHR 0x0A" by blast
  from t obtain pre post where "s = pre @ f s @ post"
    unfolding trimsEnds_def by blast
  with uv have s: "s = (pre @ u) @ CHR 0x0A # (v @ post)" by simp
  have "1 \<le> length (filter (\<lambda>l. l \<noteq> []) (split (CHR 0x0A) (pre @ u)))"
    using u by (intro nonempty_line_count) auto
  moreover have "1 \<le> length (filter (\<lambda>l. l \<noteq> []) (split (CHR 0x0A) (v @ post)))"
    using v by (intro nonempty_line_count) auto
  ultimately have "2 \<le> length (filter (\<lambda>l. l \<noteq> []) (split (CHR 0x0A) s))"
    by (subst s, subst split_append) simp
  with few show False by simp
qed

subsection \<open>The parser and the composer on a trimmed text of one line\<close>

lemma parseCSV_blank: "trim js csvData = [] \<Longrightarrow> parseCSV js csvData = []"
  by (simp add: parseCSV_def)

lemma parseCSV_one_line:
  assumes "CHR 0x0A \<notin> set (trim js csvData)"
  shows "parseCSV js csvData = []"
proof -
  have "split (CHR 0x0A) (trim js csvData) = [trim js csvData]"
    using assms by (rule split_single)
  then show ?thesis
    by (simp add: parseCSV_def)
qed

lemma sanitize_blank:
  assumes "csvData = [] \<or> trim js csvData = []"
  shows "sanitizeHistoricalData js csvData targetCar =
         \<lparr>insights = ''No historical data available.'', marginData = None\<rparr>"
  using assms by (auto simp: sanitizeHistoricalData_def)

lemma sanitize_no_records:
  assumes "csvData \<noteq> []" and "trim js csvData \<noteq> []" and "parseCSV js csvData = []"
  shows "sanitizeHistoricalData js csvData targetCar =
         \<lparr>insights = ''No valid historical data found.'', marginData = None\<rparr>"
  using assms by (simp add: sanitizeHistoricalData_def)

text \<open>
  Claim C7, whatever \<^verbatim>\<open>trim\<close> counts as white space. The pipeline is a total function
  with no error value. An empty ledger, and a ledger that \<^verbatim>\<open>trim\<close> empties (white space
  only), gives "No historical data available." with no margin data, and parses to no
  record. A ledger with fewer than two non-empty lines (lines are the pieces between line
  feeds) parses to no record, \<^verbatim>\<open>trim\<close> cutting a contiguous part that neither starts nor
  ends with a line feed; so does every ledger whose trimmed text is one line. And every
  other ledger that parses to no record (a header alone) gives
  "No valid historical data found." with no margin data.
\<close>

theorem parseCSV_sanitize_degenerate:
  "(csvData = [] \<or> trim js csvData = []
      \<longrightarrow> sanitizeHistoricalData js csvData targetCar =
            \<lparr>insights = ''No historical data available.'', marginData = None\<rparr>)
   \<and> (trim js csvData = [] \<longrightarrow> parseCSV js csvData = [])
   \<and> (trimsEnds (trim js) \<and> length (filter (\<lambda>l. l \<noteq> []) (split (CHR 0x0A) csvData)) < 2
      \<longrightarrow> parseCSV js csvData = [])
   \<and> (CHR 0x0A \<notin> set (trim js csvData) \<longrightarrow> parseCSV js csvData = [])
   \<and> (csvData \<noteq> [] \<and> trim js csvData \<noteq> [] \<and> parseCSV js csvData = []
      \<longrightarrow> sanitizeHistoricalData js csvData targetCar =
            \<lparr>insights = ''No valid historical data found.'', marginData = None\<rparr>)"
proof (intro conjI impI)
  assume "csvData = [] \<or> trim js csvData = []"
  then show "sanitizeHistoricalData js csvData targetCar =
            \<lparr>insights = ''No historical data available.'', marginData = None\<rparr>"
    by (rule sanitize_blank)
next
  assume "trim js csvData = []"
  then show "parseCSV js csvData = []" by (rule parseCSV_blank)
next
  assume "trimsEnds (trim js) \<and> length (filter (\<lambda>l. l \<noteq> []) (split (CHR 0x0A) csvData)) < 2"
  then have "CHR 0x0A \<notin> set (trim js csvData)"
    using trimmed_one_line by blast
  then show "parseCSV js csvData = []" by (rule parseCSV_one_line)
next
  assume "CHR 0x0A \<notin> set (trim js csvData)"
  then show "parseCSV js csvData = []" by (rule parseCSV_one_line)
next
  assume "csvData \<noteq> [] \<and> trim js csvData \<noteq> [] \<and> parseCSV js csvData = []"
  then show "sanitizeHistoricalData js csvData targetCar =
            \<lparr>insights = ''No valid historical data found.'', marginData = None\<rparr>"
    using sanitize_no_records by blast
qed

theorem parseCSV_sanitize_degenerate_witness:
  "parseCSV asciiBuiltins ''Brand,Model,Year,BoughtPrice,SoldPrice'' = []
   \<and> sanitizeHistoricalData asciiBuiltins ''Brand,Model,Year,BoughtPrice,SoldPrice''
       \<lparr>t_brand = ''Maruti'', t_model = ''Swift''\<rparr> =
       \<lparr>insights = ''No valid historical data found.'', marginData = None\<rparr>
   \<and> sanitizeHistoricalData asciiBuiltins [CHR '' '', CHR 0x0A, CHR 0x09]
       \<lparr>t_brand = ''Maruti'', t_model = ''Swift''\<rparr> =
       \<lparr>insights = ''No historical data available.'', marginData = None\<rparr>"
proof -
  let ?h = "''Brand,Model,Year,BoughtPrice,SoldPrice''"
  let ?w = "[CHR '' '', CHR 0x0A, CHR 0x09]"
  let ?t = "\<lparr>t_brand = ''Maruti'', t_model = ''Swift''\<rparr>"
  note H = parseCSV_sanitize_degenerate [of ?h asciiBuiltins ?t]
  note W = parseCSV_sanitize_degenerate [of ?w asciiBuiltins ?t]
  have te: "trimsEnds (trim asciiBuiltins)"
    by (simp add: asciiBuiltins_def trimsEnds_asciiTrim)
  have h1: "length (filter (\<lambda>l. l \<noteq> []) (split (CHR 0x0A) ?h)) < 2"
    by simp
  have h2: "?h \<noteq> []" "trim asciiBuiltins ?h \<noteq> []"
    by (simp_all add: asciiBuiltins_def asciiTrim_def asciiSpace_def)
  have w1: "?w = [] \<or> trim asciiBuiltins ?w = []"
    by (simp add: asciiBuiltins_def asciiTrim_def asciiSpace_def)
  have p: "parseCSV asciiBuiltins ?h = []"
    by (rule mp [OF conjunct1 [OF conjunct2 [OF conjunct2 [OF H]]] conjI [OF te h1]])
  have s1: "sanitizeHistoricalData asciiBuiltins ?h ?t =
            \<lparr>insights = ''No valid historical data found.'', marginData = None\<rparr>"
    by (rule mp [OF conjunct2 [OF conjunct2 [OF conjunct2 [OF conjunct2 [OF H]]]]
          conjI [OF h2(1) conjI [OF h2(2) p]]])
  have s2: "sanitizeHistoricalData asciiBuiltins ?w ?t =
            \<lparr>insights = ''No historical data available.'', marginData = None\<rparr>"
    by (rule mp [OF conjunct1 [OF W] w1])
  show ?thesis
    by (intro conjI p s1 s2)
qed

section \<open>Claim C5: the aggregator\<close>

subsection \<open>The insertion-ordered set and map\<close>

lemma newSet_snoc: "newSet (xs @ [x]) = setAdd (newSet xs) x"
  by (simp add: newSet_def)

lemma set_newSet: "set (newSet xs) = set xs"
  by (induction xs rule: rev_induct) (auto simp: newSet_snoc setAdd_def, simp add: newSet_def)

lemma distinct_newSet: "distinct (newSet xs)"
  by (induction xs rule: rev_induct) (simp_all add: newSet_snoc setAdd_def, simp add: newSet_def)

lemma map_of_keyed: "map_of (map (\<lambda>k. (k, f k)) ks) x = None \<longleftrightarrow> x \<notin> set ks"
  by (induction ks) auto

text \<open>
  After the grouping loop the map holds, for each key in first-seen order, the records
  of that key in input order.
\<close>

lemma groups_eq:
  "foldl pushGroup [] rs =
     map (\<lambda>k. (k, filter (\<lambda>r. groupKey r = k) rs)) (newSet (map groupKey rs))"
proof (induction rs rule: rev_induct)
  case Nil
  then show ?case by (simp add: newSet_def)
next
  case (snoc r rs)
  let ?K = "newSet (map groupKey rs)"
  let ?key = "groupKey r"
  have step: "foldl pushGroup [] (rs @ [r]) =
        pushGroup (map (\<lambda>k. (k, filter (\<lambda>r. groupKey r = k) rs)) ?K) r"
    by (simp add: snoc.IH)
  show ?case
  proof (cases "?key \<in> set ?K")
    case True
    then have K: "newSet (map groupKey (rs @ [r])) = ?K"
      by (simp add: newSet_snoc setAdd_def)
    from True show ?thesis
      unfolding step K
      by (simp add: pushGroup_def Let_def map_of_keyed comp_def)
  next
    case False
    then have K: "newSet (map groupKey (rs @ [r])) = ?K @ [?key]"
      by (simp add: newSet_snoc setAdd_def)
    from False have "?key \<notin> groupKey ` set rs"
      by (simp add: set_newSet)
    then have empty: "filter (\<lambda>x. groupKey x = ?key) rs = []"
      unfolding filter_empty_conv by (metis imageI)
    from False have neq: "\<And>k. k \<in> set ?K \<Longrightarrow> k \<noteq> ?key"
      by blast
    let ?upd = "\<lambda>(k, rs). if k = ?key then (k, rs @ [r]) else (k, rs)"
    let ?G = "map (\<lambda>k. (k, filter (\<lambda>x. groupKey x = k) rs)) ?K"
    have "pushGroup ?G r = map ?upd (?G @ [(?key, [])])"
      using False by (simp add: pushGroup_def Let_def map_of_keyed)
    also have "\<dots> = map ?upd ?G @ [(?key, [r])]"
      by simp
    also have "map ?upd ?G = ?G"
      using neq by (intro map_idI) auto
    finally have lhs: "pushGroup ?G r = ?G @ [(?key, [r])]" .
    have "map (\<lambda>k. (k, filter (\<lambda>x. groupKey x = k) (rs @ [r]))) ?K = ?G"
      using neq by (intro map_cong) auto
    then have rhs: "map (\<lambda>k. (k, filter (\<lambda>x. groupKey x = k) (rs @ [r]))) (?K @ [?key]) =
               ?G @ [(?key, [r])]"
      using empty by simp
    show ?thesis
      unfolding step K lhs rhs ..
  qed
qed

subsection \<open>The sort by count\<close>

lemma aggregate_sort:
  "sortBy (\<lambda>a b. int (count b) - int (count a)) xs = sort_key (\<lambda>a. - int (count a)) xs"
  by (rule sortBy_sort_key [of "\<lambda>a. int (count a)"])

text \<open>The groups before the sort, in first-seen order.\<close>

lemma aggregateData_eq:
  "aggregateData rs =
     sort_key (\<lambda>a. - int (count a))
       (concat (map (\<lambda>k. aggregateGroup (k, filter (\<lambda>r. groupKey r = k) rs))
                  (newSet (map groupKey rs))))"
  by (simp add: aggregateData_def aggregate_sort groups_eq comp_def)

lemma aggregateGroup_cases:
  "aggregateGroup (k, grp) =
     (if filter groupEligible grp = [] then []
      else [\<lparr>brandModel = k, count = length grp,
             avgMargin = average (map marginOf (filter groupEligible grp)),
             years = newSet (map interp (filter truthyStr (map year grp)))\<rparr>])"
  by (simp add: aggregateGroup_def Let_def)

lemma unsorted_keys:
  "map brandModel (concat (map (\<lambda>k. aggregateGroup (k, f k)) ks)) =
     filter (\<lambda>k. filter groupEligible (f k) \<noteq> []) ks"
  by (induction ks) (simp_all add: aggregateGroup_cases)

lemma unsorted_member:
  assumes "g \<in> set (concat (map (\<lambda>k. aggregateGroup (k, f k)) ks))"
  shows "brandModel g \<in> set ks \<and> filter groupEligible (f (brandModel g)) \<noteq> [] \<and>
         count g = length (f (brandModel g)) \<and>
         avgMargin g = average (map marginOf (filter groupEligible (f (brandModel g)))) \<and>
         years g = newSet (map interp (filter truthyStr (map year (f (brandModel g)))))"
  using assms by (auto simp: aggregateGroup_cases split: if_splits)
lemma unsorted_keys_count:
  "map brandModel (filter (\<lambda>g. count g = c) (concat (map (\<lambda>k. aggregateGroup (k, f k)) ks))) =
     filter (\<lambda>k. filter groupEligible (f k) \<noteq> [] \<and> length (f k) = c) ks"
  by (induction ks) (simp_all add: aggregateGroup_cases)

lemma groupEligible_iff:
  "groupEligible r \<longleftrightarrow>
     (\<exists>b s. boughtPrice r = Some b \<and> soldPrice r = Some s \<and> b \<noteq> Fin 0 \<and> b \<noteq> NaN \<and>
            s \<noteq> Fin 0 \<and> s \<noteq> NaN \<and> num_gt b (Fin 0))"
  by (auto simp: groupEligible_def truthyNum_def numOf_def split: option.splits)

lemma margin_finite:
  "boughtPrice r = Some (Fin b) \<Longrightarrow> soldPrice r = Some (Fin s) \<Longrightarrow> b \<noteq> 0 \<Longrightarrow>
   num_mul (num_div (num_sub (numOf (soldPrice r)) (numOf (boughtPrice r))) (numOf (boughtPrice r)))
     (Fin 100) = Fin ((s - b) / b * 100)"
  by (simp add: numOf_def num_sub_def)

lemma foldl_Fin: "foldl num_add (Fin a) (map Fin qs) = Fin (a + sum_list qs)"
  by (induction qs arbitrary: a) (simp_all add: add.assoc)

lemma mean_finite:
  "qs \<noteq> [] \<Longrightarrow>
   num_div (foldl num_add (Fin 0) (map Fin qs)) (Fin (of_nat (length qs))) =
     Fin (sum_list qs / of_nat (length qs))"
  by (simp add: foldl_Fin)

text \<open>
  Claim C5, as the code has it. Every group of the output has the key of some input
  record, counts all records of that key, and has for \<open>avgMargin\<close> the arithmetic mean
  (the sum divided by the number) of \<open>(sold - bought) / bought * 100\<close> over exactly the
  records of that key whose two prices are defined, non-zero and not NaN and whose bought
  price is positive; there is at least one such record. Every key with such a record has
  its group, once. The output is sorted by descending count, and the groups of one count
  come in the order in which their keys were first seen.
\<close>

theorem aggregateData_groups:
  "(\<forall>g \<in> set (aggregateData rs).
       filter groupEligible (filter (\<lambda>r. groupKey r = brandModel g) rs) \<noteq> []
     \<and> count g = length (filter (\<lambda>r. groupKey r = brandModel g) rs)
     \<and> avgMargin g =
         num_div
           (foldl num_add (Fin 0)
              (map (\<lambda>r. num_mul
                          (num_div (num_sub (numOf (soldPrice r)) (numOf (boughtPrice r)))
                             (numOf (boughtPrice r)))
                          (Fin 100))
                 (filter groupEligible (filter (\<lambda>r. groupKey r = brandModel g) rs))))
           (Fin (of_nat
              (length (filter groupEligible (filter (\<lambda>r. groupKey r = brandModel g) rs))))))
   \<and> (\<forall>r b s. boughtPrice r = Some (Fin b) \<and> soldPrice r = Some (Fin s) \<and> b \<noteq> 0 \<longrightarrow>
          num_mul (num_div (num_sub (numOf (soldPrice r)) (numOf (boughtPrice r)))
                     (numOf (boughtPrice r))) (Fin 100) = Fin ((s - b) / b * 100))
   \<and> (\<forall>qs. qs \<noteq> [] \<longrightarrow>
          num_div (foldl num_add (Fin 0) (map Fin qs)) (Fin (of_nat (length qs))) =
            Fin (sum_list qs / of_nat (length qs)))
   \<and> (\<forall>r \<in> set rs. groupEligible r \<longrightarrow> (\<exists>g \<in> set (aggregateData rs). brandModel g = groupKey r))
   \<and> distinct (map brandModel (aggregateData rs))
   \<and> sorted_wrt (\<lambda>a b. count b \<le> count a) (aggregateData rs)
   \<and> (\<forall>c. subseq (map brandModel (filter (\<lambda>g. count g = c) (aggregateData rs)))
              (newSet (map groupKey rs)))
   \<and> (\<forall>r. groupEligible r \<longleftrightarrow>
          (\<exists>b s. boughtPrice r = Some b \<and> soldPrice r = Some s \<and> b \<noteq> Fin 0 \<and> b \<noteq> NaN \<and>
                 s \<noteq> Fin 0 \<and> s \<noteq> NaN \<and> num_gt b (Fin 0)))"
proof -
  let ?f = "\<lambda>k. filter (\<lambda>r. groupKey r = k) rs"
  let ?K = "newSet (map groupKey rs)"
  let ?U = "concat (map (\<lambda>k. aggregateGroup (k, ?f k)) ?K)"
  let ?g = "\<lambda>a. - int (count a)"
  let ?m = "\<lambda>r. num_mul (num_div (num_sub (numOf (soldPrice r)) (numOf (boughtPrice r)))
                            (numOf (boughtPrice r))) (Fin 100)"
  have out: "aggregateData rs = sort_key ?g ?U"
    by (rule aggregateData_eq)
  have set_out: "set (aggregateData rs) = set ?U"
    by (simp add: out)
  have keysU: "map brandModel ?U = filter (\<lambda>k. filter groupEligible (?f k) \<noteq> []) ?K"
    by (rule unsorted_keys)
  have 1: "\<forall>g \<in> set (aggregateData rs).
       filter groupEligible (?f (brandModel g)) \<noteq> []
     \<and> count g = length (?f (brandModel g))
     \<and> avgMargin g =
         num_div (foldl num_add (Fin 0) (map ?m (filter groupEligible (?f (brandModel g)))))
           (Fin (of_nat (length (filter groupEligible (?f (brandModel g))))))"
  proof
    fix g assume "g \<in> set (aggregateData rs)"
    then have "g \<in> set ?U" by (simp only: set_out)
    from unsorted_member [OF this] show
      "filter groupEligible (?f (brandModel g)) \<noteq> []
     \<and> count g = length (?f (brandModel g))
     \<and> avgMargin g =
         num_div (foldl num_add (Fin 0) (map ?m (filter groupEligible (?f (brandModel g)))))
           (Fin (of_nat (length (filter groupEligible (?f (brandModel g))))))"
      by (simp add: average_def marginOf_def [abs_def])
  qed
  have fa: "\<forall>r b s. boughtPrice r = Some (Fin b) \<and> soldPrice r = Some (Fin s) \<and> b \<noteq> 0 \<longrightarrow>
          ?m r = Fin ((s - b) / b * 100)"
    using margin_finite by blast
  have fb: "\<forall>qs. qs \<noteq> [] \<longrightarrow>
          num_div (foldl num_add (Fin 0) (map Fin qs)) (Fin (of_nat (length qs))) =
            Fin (sum_list qs / of_nat (length qs))"
    using mean_finite by blast
  have 2: "\<forall>r \<in> set rs. groupEligible r \<longrightarrow> (\<exists>g \<in> set (aggregateData rs). brandModel g = groupKey r)"
  proof (intro ballI impI)
    fix r assume r: "r \<in> set rs" "groupEligible r"
    then have "groupKey r \<in> set ?K"
      by (simp add: set_newSet)
    moreover from r have "r \<in> set (filter groupEligible (?f (groupKey r)))"
      by simp
    then have "filter groupEligible (?f (groupKey r)) \<noteq> []"
      by (metis empty_iff list.set(1))
    ultimately have "groupKey r \<in> set (map brandModel ?U)"
      by (simp only: keysU set_filter mem_Collect_eq simp_thms)
    then have "groupKey r \<in> brandModel ` set (aggregateData rs)"
      by (simp only: set_out set_map)
    then show "\<exists>g \<in> set (aggregateData rs). brandModel g = groupKey r"
      by auto
  qed
  have dU: "distinct (map brandModel ?U)"
    by (simp only: keysU distinct_filter distinct_newSet)
  have mU: "mset (map brandModel (aggregateData rs)) = mset (map brandModel ?U)"
    by (simp add: out)
  have 3: "distinct (map brandModel (aggregateData rs))"
    by (rule iffD2 [OF mset_eq_imp_distinct_iff [OF mU] dU])
  have "sorted (map ?g (sort_key ?g ?U))"
    by (rule sorted_sort_key)
  then have 4: "sorted_wrt (\<lambda>a b. count b \<le> count a) (aggregateData rs)"
    by (simp add: out sorted_wrt_map)
  have 5: "\<forall>c. subseq (map brandModel (filter (\<lambda>g. count g = c) (aggregateData rs))) ?K"
  proof
    fix c
    have "filter (\<lambda>a. ?g a = - int c) (sort_key ?g ?U) = filter (\<lambda>a. ?g a = - int c) ?U"
      by (rule sort_key_stable)
    then have "filter (\<lambda>g. count g = c) (aggregateData rs) = filter (\<lambda>g. count g = c) ?U"
      by (simp add: out)
    then have "map brandModel (filter (\<lambda>g. count g = c) (aggregateData rs)) =
          filter (\<lambda>k. filter groupEligible (?f k) \<noteq> [] \<and> length (?f k) = c) ?K"
      by (simp only: unsorted_keys_count)
    then show "subseq (map brandModel (filter (\<lambda>g. count g = c) (aggregateData rs))) ?K"
      by (simp only: subseq_filter_left)
  qed
  show ?thesis
    by (intro 1 fa fb 2 3 4 5 conjI allI groupEligible_iff)
qed

theorem aggregateData_groups_witness:
  "\<exists>g \<in> set (aggregateData [swift2018, swiftUnsold, swift2019]).
     brandModel g = ''Maruti Swift'' \<and> count g = 3 \<and> avgMargin g = Fin (275 / 18)"
proof -
  note T = aggregateData_groups [of "[swift2018, swiftUnsold, swift2019]"]
  have k: "groupKey swift2018 = ''Maruti Swift''" "groupKey swiftUnsold = ''Maruti Swift''"
    "groupKey swift2019 = ''Maruti Swift''"
    by (simp_all add: groupKey_def orUnknown_def truthyStr_def interp_def swift2018_def
        swiftUnsold_def swift2019_def)
  have e: "groupEligible swift2018" "\<not> groupEligible swiftUnsold" "groupEligible swift2019"
    by (simp_all add: groupEligible_def truthyNum_def numOf_def swift2018_def swiftUnsold_def
        swift2019_def)
  have p: "boughtPrice swift2018 = Some (Fin 450000) \<and> soldPrice swift2018 = Some (Fin 520000) \<and>
           (450000 :: rat) \<noteq> 0"
    "boughtPrice swift2019 = Some (Fin 400000) \<and> soldPrice swift2019 = Some (Fin 460000) \<and>
           (400000 :: rat) \<noteq> 0"
    by (simp_all add: swift2018_def swift2019_def)
  note M = conjunct1 [OF conjunct2 [OF T]]
  note m = M [rule_format, OF p(1)] M [rule_format, OF p(2)]
  note A = conjunct1 [OF conjunct2 [OF conjunct2 [OF T]]]
  have a: "num_div (foldl num_add (Fin 0) (map Fin [140 / 9, 15])) (Fin (of_nat (length [140 / 9, 15 :: rat]))) =
           Fin (sum_list [140 / 9, 15] / of_nat (length [140 / 9, 15 :: rat]))"
    by (rule A [rule_format]) simp
  from conjunct1 [OF conjunct2 [OF conjunct2 [OF conjunct2 [OF T]]]] e(1) obtain g
    where g: "g \<in> set (aggregateData [swift2018, swiftUnsold, swift2019])"
      "brandModel g = groupKey swift2018"
    by auto
  from g(2) have key: "brandModel g = ''Maruti Swift''"
    by (simp only: k)
  from bspec [OF conjunct1 [OF T] g(1)]
  have "count g = 3 \<and> avgMargin g = Fin (275 / 18)"
    unfolding key using a by (simp add: k e m)
  with g(1) key show ?thesis by blast
qed

text \<open>
  Claim C5, as stated, at a group of two records bought for 450000, one sold for 520000
  and one with a sold price of 0. Both have their two prices present and a positive
  bought price, so the mean of the specification is over both margins, 140/9 and -100,
  which is -380/9; the group of the output has the margin of the first record alone,
  140/9.
\<close>

theorem aggregateData_zero_sold_counterexample:
  "filter spec_groupEligible [swift2018, swiftUnsold] = [swift2018, swiftUnsold]
   \<and> num_div
       (foldl num_add (Fin 0)
          (map (\<lambda>r. num_mul
                      (num_div (num_sub (numOf (soldPrice r)) (numOf (boughtPrice r)))
                         (numOf (boughtPrice r)))
                      (Fin 100))
             (filter spec_groupEligible [swift2018, swiftUnsold])))
       (Fin (of_nat (length (filter spec_groupEligible [swift2018, swiftUnsold]))))
     = Fin (- 380 / 9)
   \<and> aggregateData [swift2018, swiftUnsold]
     = [\<lparr>brandModel = ''Maruti Swift'', count = 2, avgMargin = Fin (140 / 9),
         years = [''2018'']\<rparr>]"
proof -
  have k: "groupKey swift2018 = ''Maruti Swift''" "groupKey swiftUnsold = ''Maruti Swift''"
    by (simp_all add: groupKey_def orUnknown_def truthyStr_def interp_def swift2018_def
        swiftUnsold_def)
  have e: "groupEligible swift2018" "\<not> groupEligible swiftUnsold"
    by (simp_all add: groupEligible_def truthyNum_def numOf_def swift2018_def swiftUnsold_def)
  have m: "marginOf swift2018 = Fin (140 / 9)"
    by (simp add: marginOf_def numOf_def num_sub_def swift2018_def)
  have y: "year swift2018 = Some ''2018''" "year swiftUnsold = Some ''2018''"
    by (simp_all add: swift2018_def swiftUnsold_def)
  have s: "filter spec_groupEligible [swift2018, swiftUnsold] = [swift2018, swiftUnsold]"
    by (simp add: spec_groupEligible_def spec_present_def numOf_def swift2018_def swiftUnsold_def)
  have a: "num_div
       (foldl num_add (Fin 0)
          (map (\<lambda>r. num_mul
                      (num_div (num_sub (numOf (soldPrice r)) (numOf (boughtPrice r)))
                         (numOf (boughtPrice r)))
                      (Fin 100))
             [swift2018, swiftUnsold]))
       (Fin (of_nat (length [swift2018, swiftUnsold])))
     = Fin (- 380 / 9)"
    by (simp add: numOf_def num_sub_def swift2018_def swiftUnsold_def)
  have g: "foldl pushGroup [] [swift2018, swiftUnsold] =
           [(''Maruti Swift'', [swift2018, swiftUnsold])]"
    by (simp add: pushGroup_def k)
  have "aggregateData [swift2018, swiftUnsold] =
        [\<lparr>brandModel = ''Maruti Swift'', count = 2, avgMargin = Fin (140 / 9),
          years = [''2018'']\<rparr>]"
    unfolding aggregateData_def g
    by (simp add: aggregateGroup_def e m y average_def sortBy_def newSet_def setAdd_def
        truthyStr_def interp_def)
  with a show ?thesis unfolding s by (intro conjI refl)
qed

section \<open>Claim C10: zero and NaN prices\<close>














section \<open>The composer\<close>

lemma txnLine_eq: "txnLine js r = (if priced r then [txnText js r] else [])"
  by (simp add: txnLine_def priced_def txnText_def Let_def)

lemma txnLines_eq: "concat (map (txnLine js) rs) = map (txnText js) (filter priced rs)"
  by (induction rs) (simp_all add: txnLine_eq)

lemma isExactMatch_filter:
  "filter (isExactMatch js targetCar) (smartFilter js (parseCSV js csvData) targetCar 50) =
     exactMatchesOf js csvData targetCar"
  by (simp add: exactMatchesOf_def selectedRecords_def isExactMatch_def [abs_def])


text \<open>The function past its two guards.\<close>

lemma sanitize_unfold:
  assumes "csvData \<noteq> []" and "trim js csvData \<noteq> []" and "parseCSV js csvData \<noteq> []"
  shows "sanitizeHistoricalData js csvData targetCar =
     \<lparr>insights =
        join nl
          (fst (if exactMatchesOf js csvData targetCar \<noteq> []
                then exactBranch js targetCar (exactMatchesOf js csvData targetCar)
                else brandBranch js targetCar
                       (aggregateData (selectedRecords js csvData targetCar))) @
           [nl @ ''Database Context: '' @ showNat (length (parseCSV js csvData)) @
            '' total records.'']),
      marginData =
        snd (if exactMatchesOf js csvData targetCar \<noteq> []
             then exactBranch js targetCar (exactMatchesOf js csvData targetCar)
             else brandBranch js targetCar
                    (aggregateData (selectedRecords js csvData targetCar)))\<rparr>"
  using assms
  unfolding sanitizeHistoricalData_def Let_def isExactMatch_filter
  by (simp add: selectedRecords_def)

lemma exactBranch_eq:
  "exactBranch js targetCar em =
     (let header = ''*** PRIORITY: YOUR PAST TRANSACTIONS FOR '' @
                   toUpperCase js (t_brand targetCar) @ '' '' @
                   toUpperCase js (t_model targetCar) @ '' ***'';
          ps = filter priced em;
          avg = num_div
                  (foldl num_add (Fin 0)
                     (map (\<lambda>r. num_mul
                                 (num_div (num_sub (numOf (soldPrice r)) (numOf (boughtPrice r)))
                                    (numOf (boughtPrice r)))
                                 (Fin 100)) ps))
                  (Fin (of_nat (length ps)))
      in if ps = [] then (header # map (txnText js) (filter priced (take 5 em)), None)
         else (header # map (txnText js) (filter priced (take 5 em)) @
                 [''AVERAGE MARGIN for this model: '' @ toFixed js avg 1 @
                  ''% over '' @ showNat (length ps) @ '' transactions.''],
               Some \<lparr>percentage = avg,
                     description = showNat (length ps) @ '' similar '' @ t_brand targetCar @
                                   '' '' @ t_model targetCar @ '' transactions''\<rparr>))"
  by (simp add: exactBranch_def Let_def txnLines_eq slice0_nonneg priced_def [abs_def]
      average_def marginOf_def [abs_def])

lemma foldl_count: "foldl (\<lambda>sum a. sum + count a) n xs = n + sum_list (map count xs)"
  by (induction xs arbitrary: n) simp_all

lemma foldl_margin:
  "foldl (\<lambda>sum a. num_add sum (f a)) z xs = foldl num_add z (map f xs)"
  by (induction xs arbitrary: z) simp_all

lemma brandBranch_eq:
  "brandBranch js targetCar aggregated =
     (let bm = filter (\<lambda>a. includes_str (toLowerCase js (brandModel a))
                              (toLowerCase js (t_brand targetCar))) aggregated
      in ([''No exact past transactions for '' @ t_brand targetCar @ '' '' @
           t_model targetCar @ ''.''],
          if bm = [] then None
          else Some \<lparr>percentage =
                       num_div
                         (foldl num_add (Fin 0)
                            (map (\<lambda>a. num_mul (avgMargin a) (Fin (of_nat (count a)))) bm))
                         (Fin (of_nat (sum_list (map count bm)))),
                     description = showNat (sum_list (map count bm)) @ '' '' @
                                   t_brand targetCar @ '' transactions (brand average)''\<rparr>))"
  by (simp add: brandBranch_def Let_def foldl_count
      foldl_margin [of "\<lambda>a. num_mul (avgMargin a) (Fin (of_nat (count a)))"])

section \<open>The scenario ledger, evaluated\<close>

lemma scenario_lines:
  "split (CHR 0x0A) (asciiTrim scenarioLedger) =
     [''Brand,Model,Year,BoughtPrice,SoldPrice'', ''Maruti,Swift,2018,450000,520000'',
      ''Maruti,Swift,2019,400000,460000'']"
  by (simp add: scenarioLedger_def asciiTrim_def asciiSpace_def)

lemma scenario_headers:
  "map asciiTrim (split CHR '','' (asciiLower ''Brand,Model,Year,BoughtPrice,SoldPrice'')) =
     [''brand'', ''model'', ''year'', ''boughtprice'', ''soldprice'']"
  by (simp add: asciiLower_def asciiLowerChar_def asciiTrim_def asciiSpace_def)

lemma scenario_cells:
  "map asciiTrim (split CHR '','' ''Maruti,Swift,2018,450000,520000'') =
     [''Maruti'', ''Swift'', ''2018'', ''450000'', ''520000'']"
  "map asciiTrim (split CHR '','' ''Maruti,Swift,2019,400000,460000'') =
     [''Maruti'', ''Swift'', ''2019'', ''400000'', ''460000'']"
  by (simp_all add: asciiTrim_def asciiSpace_def)

lemma scenario_prices:
  "decimalParseFloat (Some ''450000'') = Fin 450000" "decimalParseFloat (Some ''520000'') = Fin 520000"
  "decimalParseFloat (Some ''400000'') = Fin 400000" "decimalParseFloat (Some ''460000'') = Fin 460000"
  by (simp_all add: decimalParseFloat_def asciiSpace_def isDigit_def digitsValue_def exponentPart_def
      scale10_def Let_def)

lemma scenario_record:
  "buildRecord js [''brand'', ''model'', ''year'', ''boughtprice'', ''soldprice'']
     [b, m, y, bp, sp] =
   \<lparr>brand = Some b, model = Some m, variant = None, year = Some y,
    boughtPrice = Some (parseFloat js (Some bp)), soldPrice = Some (parseFloat js (Some sp)),
    date = None\<rparr>"
  by (simp add: buildRecord_def assignField_def emptyRecord_def nth_opt_def upt_rec)

lemma ascii_fields:
  "toLowerCase asciiBuiltins = asciiLower" "toUpperCase asciiBuiltins = asciiUpper"
  "trim asciiBuiltins = asciiTrim" "toFixed asciiBuiltins = decimalToFixed"
  "parseFloat asciiBuiltins = decimalParseFloat"
  by (simp_all add: asciiBuiltins_def)

lemma scenario_parse: "parseCSV asciiBuiltins scenarioLedger = [swift2018, swift2019]"
proof -
  have "asciiTrim scenarioLedger \<noteq> []"
    by (simp add: scenarioLedger_def asciiTrim_def asciiSpace_def)
  then show ?thesis
    unfolding parseCSV_def ascii_fields scenario_lines
    by (simp add: scenario_headers scenario_cells scenario_record scenario_prices
        swift2018_def swift2019_def asciiTrim_def asciiSpace_def ascii_fields)
qed

lemma scenario_nonblank: "scenarioLedger \<noteq> []" "trim asciiBuiltins scenarioLedger \<noteq> []"
  by (simp_all add: scenarioLedger_def ascii_fields asciiTrim_def asciiSpace_def)

lemma scenario_scores:
  "calculateRelevance asciiBuiltins swift2018 marutiSwift = 225"
  "calculateRelevance asciiBuiltins swift2019 marutiSwift = 225"
  "calculateRelevance asciiBuiltins swift2018 hondaCity = 0"
  "calculateRelevance asciiBuiltins swift2019 hondaCity = 0"
  by (simp_all add: calculateRelevance_def swift2018_def swift2019_def marutiSwift_def
      hondaCity_def ascii_fields ascii_lower_words truthyStr_def interp_def)

lemma scenario_selected:
  "selectedRecords asciiBuiltins scenarioLedger marutiSwift = [swift2018, swift2019]"
  "selectedRecords asciiBuiltins scenarioLedger hondaCity = []"
  by (simp_all add: selectedRecords_def scenario_parse smartFilter_def scenario_scores
      sortBy_def slice0_def)

lemma scenario_exact:
  "exactMatchesOf asciiBuiltins scenarioLedger marutiSwift = [swift2018, swift2019]"
  "exactMatchesOf asciiBuiltins scenarioLedger hondaCity = []"
  unfolding exactMatchesOf_def scenario_selected
  by (simp_all add: swift2018_def swift2019_def marutiSwift_def ascii_fields ascii_lower_words)

lemma scenario_priced: "priced swift2018" "priced swift2019"
  by (simp_all add: priced_def truthyNum_def swift2018_def swift2019_def)

lemma scenario_margins: "marginOf swift2018 = Fin (140 / 9)" "marginOf swift2019 = Fin 15"
  by (simp_all add: marginOf_def numOf_def num_sub_def swift2018_def swift2019_def)

lemma fixed_450: "decimalToFixed (Fin (9 / 2)) 2 = ''4.50''"
  by code_simp

lemma fixed_520: "decimalToFixed (Fin (26 / 5)) 2 = ''5.20''"
  by code_simp

lemma fixed_400: "decimalToFixed (Fin 4) 2 = ''4.00''"
  by code_simp

lemma fixed_460: "decimalToFixed (Fin (23 / 5)) 2 = ''4.60''"
  by code_simp

lemma fixed_156: "decimalToFixed (Fin (140 / 9)) 1 = ''15.6''"
  by code_simp

lemma fixed_150: "decimalToFixed (Fin 15) 1 = ''15.0''"
  by code_simp

lemma fixed_153: "decimalToFixed (Fin (275 / 18)) 1 = ''15.3''"
  by code_simp


lemma showNat_2: "showNat 2 = ''2''"
  by code_simp

lemma scenario_texts:
  "txnText asciiBuiltins swift2018 =
     ''- Date: N/A | Maruti Swift (2018) | Bought: '' @ rupee @ ''4.50L | Sold: '' @ rupee @
     ''5.20L | Margin: 15.6%''"
  "txnText asciiBuiltins swift2019 =
     ''- Date: N/A | Maruti Swift (2019) | Bought: '' @ rupee @ ''4.00L | Sold: '' @ rupee @
     ''4.60L | Margin: 15.0%''"
  by (simp_all add: txnText_def swift2018_def swift2019_def truthyStr_def interp_def numOf_def
      ascii_fields num_sub_def fixed_450 fixed_520 fixed_400 fixed_460 fixed_156 [unfolded One_nat_def]
      fixed_150 [unfolded One_nat_def])

lemma scenario_average: "average [Fin (140 / 9), Fin 15] = Fin (275 / 18)"
  by (simp add: average_def)

section \<open>Claim C2: the round-trip scenario\<close>

text \<open>
  Claim C2. On the ledger of the scenario and the target Maruti Swift there are two exact
  matches, with margins 140/9 (15.56 to two decimals) and 15; the percentage of the
  margin data is their mean 275/18 (15.28 to two decimals), its description is
  "2 similar Maruti Swift transactions", and the insights are the priority header, one
  line for each of the two transactions, the average line and the context line.
\<close>

theorem scenario_round_trip:
  "length (exactMatchesOf asciiBuiltins scenarioLedger marutiSwift) = 2
   \<and> map marginOf (exactMatchesOf asciiBuiltins scenarioLedger marutiSwift) = [Fin (140 / 9), Fin 15]
   \<and> \<bar>140 / 9 - 1556 / 100\<bar> < (1 / 100 :: rat)
   \<and> marginData (sanitizeHistoricalData asciiBuiltins scenarioLedger marutiSwift) =
       Some \<lparr>percentage = Fin ((140 / 9 + 15) / 2),
             description = ''2 similar Maruti Swift transactions''\<rparr>
   \<and> \<bar>(140 / 9 + 15) / 2 - 1528 / 100\<bar> < (1 / 100 :: rat)
   \<and> insights (sanitizeHistoricalData asciiBuiltins scenarioLedger marutiSwift) =
       join [CHR 0x0A]
         [''*** PRIORITY: YOUR PAST TRANSACTIONS FOR MARUTI SWIFT ***'',
          ''- Date: N/A | Maruti Swift (2018) | Bought: '' @ rupee @ ''4.50L | Sold: '' @ rupee @
          ''5.20L | Margin: 15.6%'',
          ''- Date: N/A | Maruti Swift (2019) | Bought: '' @ rupee @ ''4.00L | Sold: '' @ rupee @
          ''4.60L | Margin: 15.0%'',
          ''AVERAGE MARGIN for this model: 15.3% over 2 transactions.'',
          [CHR 0x0A] @ ''Database Context: 2 total records.'']"
proof -
  have p: "parseCSV asciiBuiltins scenarioLedger \<noteq> []"
    by (simp add: scenario_parse)
  have up: "toUpperCase asciiBuiltins ''Maruti'' = ''MARUTI''"
    "toUpperCase asciiBuiltins ''Swift'' = ''SWIFT''"
    by (simp_all add: ascii_fields asciiUpper_def asciiUpperChar_def)
  have m: "num_mul (num_div (num_sub (numOf (soldPrice swift2018)) (numOf (boughtPrice swift2018)))
                      (numOf (boughtPrice swift2018))) (Fin 100) = Fin (140 / 9)"
    "num_mul (num_div (num_sub (numOf (soldPrice swift2019)) (numOf (boughtPrice swift2019)))
                      (numOf (boughtPrice swift2019))) (Fin 100) = Fin 15"
    by (simp_all add: numOf_def num_sub_def swift2018_def swift2019_def)
  have b: "exactBranch asciiBuiltins marutiSwift [swift2018, swift2019] =
      ([''*** PRIORITY: YOUR PAST TRANSACTIONS FOR MARUTI SWIFT ***'',
        ''- Date: N/A | Maruti Swift (2018) | Bought: '' @ rupee @ ''4.50L | Sold: '' @ rupee @
        ''5.20L | Margin: 15.6%'',
        ''- Date: N/A | Maruti Swift (2019) | Bought: '' @ rupee @ ''4.00L | Sold: '' @ rupee @
        ''4.60L | Margin: 15.0%'',
        ''AVERAGE MARGIN for this model: 15.3% over 2 transactions.''],
       Some \<lparr>percentage = Fin (275 / 18),
             description = ''2 similar Maruti Swift transactions''\<rparr>)"
    unfolding exactBranch_eq
    by (simp add: scenario_priced m scenario_texts ascii_fields Let_def
        fixed_153 [unfolded One_nat_def] showNat_2 [unfolded numeral_2_eq_2] marutiSwift_def
        up [unfolded marutiSwift_def ascii_fields])
  have s: "sanitizeHistoricalData asciiBuiltins scenarioLedger marutiSwift =
      \<lparr>insights = join nl
         [''*** PRIORITY: YOUR PAST TRANSACTIONS FOR MARUTI SWIFT ***'',
          ''- Date: N/A | Maruti Swift (2018) | Bought: '' @ rupee @ ''4.50L | Sold: '' @ rupee @
          ''5.20L | Margin: 15.6%'',
          ''- Date: N/A | Maruti Swift (2019) | Bought: '' @ rupee @ ''4.00L | Sold: '' @ rupee @
          ''4.60L | Margin: 15.0%'',
          ''AVERAGE MARGIN for this model: 15.3% over 2 transactions.'',
          nl @ ''Database Context: 2 total records.''],
        marginData = Some \<lparr>percentage = Fin (275 / 18),
             description = ''2 similar Maruti Swift transactions''\<rparr>\<rparr>"
    unfolding sanitize_unfold [OF scenario_nonblank(1) scenario_nonblank(2) p] scenario_exact b scenario_parse
    by (simp add: showNat_2 [unfolded numeral_2_eq_2])
  show ?thesis
    unfolding s scenario_exact
    by (simp add: scenario_margins nl_def)
qed

section \<open>Claim C3: the report on exact matches\<close>









section \<open>Claim C4: the brand-level fallback\<close>

lemma scenario_aggregate:
  "aggregateData [swift2018, swift2019] =
     [\<lparr>brandModel = ''Maruti Swift'', count = 2, avgMargin = Fin (275 / 18),
       years = [''2018'', ''2019'']\<rparr>]"
proof -
  have k: "groupKey swift2018 = ''Maruti Swift''" "groupKey swift2019 = ''Maruti Swift''"
    by (simp_all add: groupKey_def orUnknown_def truthyStr_def interp_def swift2018_def
        swift2019_def)
  have e: "groupEligible swift2018" "groupEligible swift2019"
    by (simp_all add: groupEligible_def truthyNum_def numOf_def swift2018_def swift2019_def)
  have y: "year swift2018 = Some ''2018''" "year swift2019 = Some ''2019''"
    by (simp_all add: swift2018_def swift2019_def)
  have g: "foldl pushGroup [] [swift2018, swift2019] =
           [(''Maruti Swift'', [swift2018, swift2019])]"
    by (simp add: pushGroup_def k)
  show ?thesis
    unfolding aggregateData_def g
    by (simp add: aggregateGroup_def e y scenario_margins scenario_average sortBy_def
        newSet_def setAdd_def truthyStr_def interp_def)
qed

lemma alto_exact:
  "selectedRecords asciiBuiltins scenarioLedger marutiAlto = [swift2018, swift2019]"
  "exactMatchesOf asciiBuiltins scenarioLedger marutiAlto = []"
proof -
  have "calculateRelevance asciiBuiltins swift2018 marutiAlto = 50"
    "calculateRelevance asciiBuiltins swift2019 marutiAlto = 50"
    by (simp_all add: calculateRelevance_def swift2018_def swift2019_def marutiAlto_def
        ascii_fields ascii_lower_words truthyStr_def interp_def)
  then show s: "selectedRecords asciiBuiltins scenarioLedger marutiAlto = [swift2018, swift2019]"
    by (simp add: selectedRecords_def scenario_parse smartFilter_def sortBy_def slice0_def)
  show "exactMatchesOf asciiBuiltins scenarioLedger marutiAlto = []"
    unfolding exactMatchesOf_def s
    by (simp add: swift2018_def swift2019_def marutiAlto_def ascii_fields ascii_lower_words)
qed

text \<open>
  Claim C4, as the code has it. When the ledger passes the two guards (it is not the
  empty string, its trimmed text is not empty, and it has a record) and the selected
  records hold no exact match, the insights are the line
  "No exact past transactions for brand model." and the context line, and nothing else.
  If some aggregated group's key contains the target brand (both in lower case), the
  margin data is the weighted average (sum of avgMargin * count) / (sum of count) over
  exactly those groups, with the description "total brand transactions (brand average)",
  total the sum of their counts; otherwise it is null. The property holds whatever the
  library functions are.
\<close>

theorem brand_fallback_report:
  assumes "csvData \<noteq> []" and "trim js csvData \<noteq> []" and "parseCSV js csvData \<noteq> []"
    and "exactMatchesOf js csvData targetCar = []"
    and "bm = filter (\<lambda>a. includes_str (toLowerCase js (brandModel a))
                             (toLowerCase js (t_brand targetCar)))
                (aggregateData (selectedRecords js csvData targetCar))"
  shows "insights (sanitizeHistoricalData js csvData targetCar) =
           join [CHR 0x0A]
             [''No exact past transactions for '' @ t_brand targetCar @ '' '' @
              t_model targetCar @ ''.'',
              [CHR 0x0A] @ ''Database Context: '' @ showNat (length (parseCSV js csvData)) @
              '' total records.'']
       \<and> marginData (sanitizeHistoricalData js csvData targetCar) =
           (if bm = [] then None
            else Some \<lparr>percentage =
                         num_div
                           (foldl num_add (Fin 0)
                              (map (\<lambda>a. num_mul (avgMargin a) (Fin (of_nat (count a)))) bm))
                           (Fin (of_nat (sum_list (map count bm)))),
                       description = showNat (sum_list (map count bm)) @ '' '' @
                                     t_brand targetCar @ '' transactions (brand average)''\<rparr>)"
  unfolding sanitize_unfold [OF assms(1,2,3)] brandBranch_eq assms(4,5)
  by (simp add: Let_def nl_def)

theorem brand_fallback_report_witness:
  "scenarioLedger \<noteq> [] \<and> trim asciiBuiltins scenarioLedger \<noteq> []
   \<and> parseCSV asciiBuiltins scenarioLedger \<noteq> []
   \<and> exactMatchesOf asciiBuiltins scenarioLedger marutiAlto = []
   \<and> insights (sanitizeHistoricalData asciiBuiltins scenarioLedger marutiAlto) =
       join [CHR 0x0A]
         [''No exact past transactions for Maruti Alto.'',
          [CHR 0x0A] @ ''Database Context: 2 total records.'']
   \<and> marginData (sanitizeHistoricalData asciiBuiltins scenarioLedger marutiAlto) =
       Some \<lparr>percentage = Fin (275 / 18),
             description = ''2 Maruti transactions (brand average)''\<rparr>"
proof -
  have p: "parseCSV asciiBuiltins scenarioLedger \<noteq> []"
    by (simp add: scenario_parse)
  have m: "filter (\<lambda>a. includes_str (toLowerCase asciiBuiltins (brandModel a))
                          (toLowerCase asciiBuiltins (t_brand marutiAlto)))
             (aggregateData (selectedRecords asciiBuiltins scenarioLedger marutiAlto)) =
           [\<lparr>brandModel = ''Maruti Swift'', count = 2, avgMargin = Fin (275 / 18),
             years = [''2018'', ''2019'']\<rparr>]"
    unfolding alto_exact scenario_aggregate
    by (simp add: marutiAlto_def ascii_fields asciiLower_def asciiLowerChar_def)
  note T = brand_fallback_report [OF scenario_nonblank(1) scenario_nonblank(2) p alto_exact(2)
      m [symmetric]]
  from conjunct1 [OF T]
  have i: "insights (sanitizeHistoricalData asciiBuiltins scenarioLedger marutiAlto) =
       join [CHR 0x0A]
         [''No exact past transactions for Maruti Alto.'',
          [CHR 0x0A] @ ''Database Context: 2 total records.'']"
    by (simp add: scenario_parse showNat_2 [unfolded numeral_2_eq_2] marutiAlto_def)
  from conjunct2 [OF T]
  have d: "marginData (sanitizeHistoricalData asciiBuiltins scenarioLedger marutiAlto) =
       Some \<lparr>percentage = Fin (275 / 18),
             description = ''2 Maruti transactions (brand average)''\<rparr>"
    by (simp add: showNat_2 marutiAlto_def)
  from scenario_nonblank(1) scenario_nonblank(2) p alto_exact(2) i d show ?thesis
    by (intro conjI)
qed

text \<open>
  Claim C4, as stated, at the ledger of the scenario and the target Honda City: no exact
  match, no group whose key contains the brand, null margin data; and the insights are
  the no-exact-transactions line and the context line alone, with no statement about the
  brand.
\<close>

theorem no_brand_statement_counterexample:
  "exactMatchesOf asciiBuiltins scenarioLedger hondaCity = []
   \<and> filter (\<lambda>a. includes_str (toLowerCase asciiBuiltins (brandModel a))
                    (toLowerCase asciiBuiltins (t_brand hondaCity)))
        (aggregateData (selectedRecords asciiBuiltins scenarioLedger hondaCity)) = []
   \<and> sanitizeHistoricalData asciiBuiltins scenarioLedger hondaCity =
       \<lparr>insights = ''No exact past transactions for Honda City.'' @ [CHR 0x0A, CHR 0x0A] @
                   ''Database Context: 2 total records.'',
        marginData = None\<rparr>
   \<and> \<not> includes_str (insights (sanitizeHistoricalData asciiBuiltins scenarioLedger hondaCity))
         (spec_noBrandSentence hondaCity)
   \<and> \<not> includes_str
         (toLowerCase asciiBuiltins
            (insights (sanitizeHistoricalData asciiBuiltins scenarioLedger hondaCity)))
         ''brand''"
proof -
  have p: "parseCSV asciiBuiltins scenarioLedger \<noteq> []"
    by (simp add: scenario_parse)
  have a: "aggregateData (selectedRecords asciiBuiltins scenarioLedger hondaCity) = []"
    by (simp add: scenario_selected aggregateData_def sortBy_def)
  have s: "sanitizeHistoricalData asciiBuiltins scenarioLedger hondaCity =
       \<lparr>insights = ''No exact past transactions for Honda City.'' @ [CHR 0x0A, CHR 0x0A] @
                   ''Database Context: 2 total records.'',
        marginData = None\<rparr>"
    unfolding sanitize_unfold [OF scenario_nonblank(1) scenario_nonblank(2) p] scenario_exact
      brandBranch_eq a scenario_parse
    by (simp add: showNat_2 [unfolded numeral_2_eq_2] hondaCity_def nl_def)
  have n: "\<not> includes_str (''No exact past transactions for Honda City.'' @ [CHR 0x0A, CHR 0x0A] @
                   ''Database Context: 2 total records.'') (spec_noBrandSentence hondaCity)"
    by (simp add: spec_noBrandSentence_def hondaCity_def)
  have b: "\<not> includes_str (toLowerCase asciiBuiltins
                (''No exact past transactions for Honda City.'' @
                   [CHR 0x0A, CHR 0x0A] @ ''Database Context: 2 total records.'')) ''brand''"
    by (simp add: ascii_fields asciiLower_def asciiLowerChar_def)
  show ?thesis
    unfolding s a using scenario_exact(2) n b by simp
qed

end
